theory Spec2Isabelle
  imports Complex_Main "HOL-Library.Log_Nat"
begin

section \<open>Numbers, vectors and quaternions\<close>

text \<open>
  The program is a React / three.js Rubik's cube. Its logical state is a list of 27
  cubies, each carrying a \<open>THREE.Vector3\<close> position and a \<open>THREE.Quaternion\<close>
  rotation. A JavaScript \<open>number\<close> is carried as a \<open>real\<close>.

  The rotation of a cubie is a product of quaternions that the program never rounds or
  renormalises, so the arithmetic that produces it is the arithmetic of IEEE doubles:
  every product, sum and difference in \<open>multiplyQuaternions\<close> is rounded to the nearest
  double, and \<open>setFromAxisAngle\<close> delivers the doubles that \<open>Math.sin\<close> and
  \<open>Math.cos\<close> return. The position of a cubie is re-rounded to integers with
  \<open>Math.round\<close> at each commit; the arithmetic inside \<open>applyQuaternion\<close>, frame
  times and progress values are taken exactly, since an error of rounding there is far
  below what \<open>Math.round\<close> or a threshold test can see on the lattice.

  The three.js operations the program calls are written out from the library's
  formulas: \<open>Quaternion.setFromAxisAngle\<close>, \<open>Quaternion.premultiply\<close>,
  \<open>Vector3.applyQuaternion\<close>, \<open>Vector3.lengthSq\<close>, \<open>Vector2.normalize\<close>,
  \<open>Vector2.dot\<close>, \<open>MathUtils.degToRad\<close>.
\<close>

datatype Axis = X | Y | Z

datatype Vector3 = Vector3 (vx: real) (vy: real) (vz: real)

datatype Vector2 = Vector2 (ux: real) (uy: real)

datatype Quaternion = Quaternion (qx: real) (qy: real) (qz: real) (qw: real)

text \<open>\<open>new THREE.Quaternion()\<close> is the identity quaternion \<open>(0, 0, 0, 1)\<close>.\<close>

definition newQuaternion :: Quaternion where
  "newQuaternion = Quaternion 0 0 0 1"

text \<open>\<open>Math.round\<close>: the nearest integer, a tie going up.\<close>

definition Math_round :: "real \<Rightarrow> real" where
  "Math_round v = of_int \<lfloor>v + 1 / 2\<rfloor>"

text \<open>
  Rounding of a real to the nearest double, a tie going to the even mantissa: with
  \<open>u\<close> the spacing of the doubles around \<open>x\<close>, the nearest multiple of \<open>u\<close>.
  The spacing is \<open>2\<^sup>e\<^sup>-\<^sup>5\<^sup>2\<close> in the binade \<open>[2\<^sup>e, 2\<^sup>e\<^sup>+\<^sup>1)\<close>, and that of
  the subnormal numbers, \<open>2\<^sup>-\<^sup>1\<^sup>0\<^sup>7\<^sup>4\<close>, below \<open>2\<^sup>-\<^sup>1\<^sup>0\<^sup>2\<^sup>2\<close>. Overflow to
  \<open>Infinity\<close> (a magnitude of \<open>2\<^sup>1\<^sup>0\<^sup>2\<^sup>4\<close> or more) and \<open>NaN\<close> are outside the
  model.
\<close>

definition roundEven :: "real \<Rightarrow> int" where
  "roundEven t =
     (let n = \<lfloor>t\<rfloor>; r = t - of_int n
      in if r < 1 / 2 then n else if r > 1 / 2 then n + 1 else if even n then n else n + 1)"

definition dbl :: "real \<Rightarrow> real" where
  "dbl x =
     (if x = 0 then 0
      else (let e = max \<lfloor>log 2 \<bar>x\<bar>\<rfloor> (- 1022); u = 2 powr (of_int e - 52)
            in of_int (roundEven (x / u)) * u))"

text \<open>
  \<open>Math.sin\<close> and \<open>Math.cos\<close> at the double nearest to \<open>x\<close>. JavaScript leaves their
  precision to the engine. At the half angle of a quarter turn, the double
  \<open>0.7853981633974483\<close> nearest to \<open>\<pi>/4\<close>, the engines return
  \<open>0.7071067811865475\<close> for the sine and \<open>0.7071067811865476\<close> for the cosine, the
  doubles \<open>1592262918131443 / 2\<^sup>5\<^sup>1\<close> and \<open>6369051672525773 / 2\<^sup>5\<^sup>3\<close>. At any other
  argument the nearest double to the exact value is taken.
\<close>

definition Math_sin :: "real \<Rightarrow> real" where
  "Math_sin x =
     (if x = pi / 4 then 1592262918131443 / 2 ^ 51
      else if x = - (pi / 4) then - (1592262918131443 / 2 ^ 51)
      else dbl (sin x))"

definition Math_cos :: "real \<Rightarrow> real" where
  "Math_cos x =
     (if x = pi / 4 \<or> x = - (pi / 4) then 6369051672525773 / 2 ^ 53
      else dbl (cos x))"

text \<open>\<open>q.setFromAxisAngle(axis, angle)\<close>, the axis taken as normalised.\<close>

definition setFromAxisAngle :: "Vector3 \<Rightarrow> real \<Rightarrow> Quaternion" where
  "setFromAxisAngle a angle =
     (let halfAngle = angle / 2; s = Math_sin halfAngle
      in Quaternion (dbl (vx a * s)) (dbl (vy a * s)) (dbl (vz a * s)) (Math_cos halfAngle))"

text \<open>
  \<open>multiplyQuaternions(a, b)\<close>, each operation rounded, in the order in which
  JavaScript evaluates the four expressions; \<open>r.premultiply(q)\<close> is
  \<open>multiplyQuaternions(q, r)\<close>.
\<close>

definition multiplyQuaternions :: "Quaternion \<Rightarrow> Quaternion \<Rightarrow> Quaternion" where
  "multiplyQuaternions a b =
     Quaternion
       (dbl (dbl (dbl (dbl (qx a * qw b) + dbl (qw a * qx b)) + dbl (qy a * qz b))
             - dbl (qz a * qy b)))
       (dbl (dbl (dbl (dbl (qy a * qw b) + dbl (qw a * qy b)) + dbl (qz a * qx b))
             - dbl (qx a * qz b)))
       (dbl (dbl (dbl (dbl (qz a * qw b) + dbl (qw a * qz b)) + dbl (qx a * qy b))
             - dbl (qy a * qx b)))
       (dbl (dbl (dbl (dbl (qw a * qw b) - dbl (qx a * qx b)) - dbl (qy a * qy b))
             - dbl (qz a * qz b)))"

definition premultiply :: "Quaternion \<Rightarrow> Quaternion \<Rightarrow> Quaternion" where
  "premultiply r q = multiplyQuaternions q r"

text \<open>
  \<open>v.applyQuaternion(q)\<close>, as three.js computes it: \<open>v + qw t + q \<times> t\<close> with
  \<open>t = 2 (q \<times> v)\<close>, in exact arithmetic.
\<close>

definition applyQuaternion :: "Vector3 \<Rightarrow> Quaternion \<Rightarrow> Vector3" where
  "applyQuaternion v q =
     (let tx = 2 * (qy q * vz v - qz q * vy v);
          ty = 2 * (qz q * vx v - qx q * vz v);
          tz = 2 * (qx q * vy v - qy q * vx v)
      in Vector3
           (vx v + qw q * tx + qy q * tz - qz q * ty)
           (vy v + qw q * ty + qz q * tx - qx q * tz)
           (vz v + qw q * tz + qx q * ty - qy q * tx))"

definition sub3 :: "Vector3 \<Rightarrow> Vector3 \<Rightarrow> Vector3" where
  "sub3 a b = Vector3 (vx a - vx b) (vy a - vy b) (vz a - vz b)"

definition lengthSq :: "Vector3 \<Rightarrow> real" where
  "lengthSq v = vx v * vx v + vy v * vy v + vz v * vz v"

definition sub2 :: "Vector2 \<Rightarrow> Vector2 \<Rightarrow> Vector2" where
  "sub2 a b = Vector2 (ux a - ux b) (uy a - uy b)"

definition length2 :: "Vector2 \<Rightarrow> real" where
  "length2 v = sqrt (ux v * ux v + uy v * uy v)"

text \<open>\<open>v.normalize()\<close> divides by \<open>v.length() || 1\<close>: a zero vector stays zero.\<close>

definition normalize2 :: "Vector2 \<Rightarrow> Vector2" where
  "normalize2 v =
     (let l = (if length2 v = 0 then 1 else length2 v)
      in Vector2 (ux v / l) (uy v / l))"

definition dot2 :: "Vector2 \<Rightarrow> Vector2 \<Rightarrow> real" where
  "dot2 a b = ux a * ux b + uy a * uy b"

definition degToRad :: "real \<Rightarrow> real" where
  "degToRad degrees = degrees * (pi / 180)"

section \<open>The data model (types.ts)\<close>

record Cubie =
  cid :: nat
  position :: Vector3
  rotation :: Quaternion
  cname :: string

record Move =
  axis :: Axis
  slice :: real
  direction :: real
  mname :: "string option"

definition mkMove :: "Axis \<Rightarrow> real \<Rightarrow> real \<Rightarrow> string \<Rightarrow> Move" where
  "mkMove a s d n = \<lparr>axis = a, slice = s, direction = d, mname = Some n\<rparr>"

text \<open>The move table, in the insertion order of the object literal.\<close>

definition MOVES :: "(string \<times> Move) list" where
  "MOVES =
     [(''U1'', mkMove Y 1 (-1) ''U''),
      (''U2'', mkMove Y 1 1 (''U'' @ [CHR 0x27])),
      (''D1'', mkMove Y (-1) 1 ''D''),
      (''D2'', mkMove Y (-1) (-1) (''D'' @ [CHR 0x27])),
      (''L1'', mkMove X (-1) 1 ''L''),
      (''L2'', mkMove X (-1) (-1) (''L'' @ [CHR 0x27])),
      (''R1'', mkMove X 1 (-1) ''R''),
      (''R2'', mkMove X 1 1 (''R'' @ [CHR 0x27])),
      (''F1'', mkMove Z 1 (-1) ''F''),
      (''F2'', mkMove Z 1 1 (''F'' @ [CHR 0x27])),
      (''B1'', mkMove Z (-1) 1 ''B''),
      (''B2'', mkMove Z (-1) (-1) (''B'' @ [CHR 0x27]))]"

definition moveTable :: "Move list" where
  "moveTable = map snd MOVES"

section \<open>Cubie store: initial state and slices\<close>

text \<open>Decimal rendering of the numbers that template literals interpolate.\<close>

function show_nat :: "nat \<Rightarrow> string" where
  "show_nat n =
     (if n < 10 then [''0123456789'' ! n]
      else show_nat (n div 10) @ [''0123456789'' ! (n mod 10)])"
  by pat_completeness auto
termination
  by (relation "measure (\<lambda>n. n)") auto

definition show_int :: "int \<Rightarrow> string" where
  "show_int i = (if i < 0 then ''-'' @ show_nat (nat (- i)) else show_nat (nat i))"

text \<open>
  The three nested loops \<open>for x, for y, for z\<close> over \<open>-1..1\<close>, in the order in which
  they push; \<open>id++\<close> numbers the pushes from 0.
\<close>

definition latticeOrder :: "(int \<times> int \<times> int) list" where
  "latticeOrder = concat (map (\<lambda>x. concat (map (\<lambda>y. map (\<lambda>z. (x, y, z)) [-1..1]) [-1..1])) [-1..1])"

text \<open>Initial cubies of src/unnamed/part\_000: the name is \<open>`${x},${y},${z}`\<close>.\<close>

definition initCubies :: "Cubie list" where
  "initCubies =
     map (\<lambda>(i, (x, y, z)).
            \<lparr>cid = i,
             position = Vector3 (of_int x) (of_int y) (of_int z),
             rotation = newQuaternion,
             cname = show_int x @ '','' @ show_int y @ '','' @ show_int z\<rparr>)
         (enumerate 0 latticeOrder)"

text \<open>
  Initial cubies of src/components/Cube3D.tsx: the name is \<open>`cubie-${id}`\<close>, read
  after \<open>id++\<close> has run for the \<open>id\<close> field.
\<close>

definition initCubies3D :: "Cubie list" where
  "initCubies3D =
     map (\<lambda>(i, (x, y, z)).
            \<lparr>cid = i,
             position = Vector3 (of_int x) (of_int y) (of_int z),
             rotation = newQuaternion,
             cname = ''cubie-'' @ show_nat (Suc i)\<rparr>)
         (enumerate 0 latticeOrder)"

text \<open>\<open>isInSlice\<close> (part\_000, lines 19-25).\<close>

definition isInSlice :: "Vector3 \<Rightarrow> Axis \<Rightarrow> real \<Rightarrow> bool" where
  "isInSlice pos ax sliceVal =
     (let epsilon = 0.1 in
      case ax of
        X \<Rightarrow> \<bar>vx pos - sliceVal\<bar> < epsilon
      | Y \<Rightarrow> \<bar>vy pos - sliceVal\<bar> < epsilon
      | Z \<Rightarrow> \<bar>vz pos - sliceVal\<bar> < epsilon)"

definition axisVec :: "Axis \<Rightarrow> Vector3" where
  "axisVec ax =
     Vector3 (if ax = X then 1 else 0) (if ax = Y then 1 else 0) (if ax = Z then 1 else 0)"

text \<open>
  The body both commits share once a cubie has been selected: rotate the position by
  the quarter-turn quaternion, round each component, premultiply the orientation.
\<close>

definition turnCubie :: "Quaternion \<Rightarrow> Cubie \<Rightarrow> Cubie" where
  "turnCubie qRot c =
     (let p = applyQuaternion (position c) qRot;
          newPos = Vector3 (Math_round (vx p)) (Math_round (vy p)) (Math_round (vz p));
          newRot = premultiply (rotation c) qRot
      in c\<lparr>position := newPos, rotation := newRot\<rparr>)"

section \<open>The animation state machine of src/unnamed/part\_000\<close>

text \<open>
  The React state \<open>cubies\<close>, the \<open>moveQueue\<close> state of \<open>App\<close> that the component
  receives as a prop and pops through \<open>onMoveComplete\<close>, and the refs. The pivot group
  is \<open>None\<close> while unmounted, otherwise its rotation. The components take the queue at
  its declared type \<open>Move[]\<close>. State updates are taken to be visible to the next frame.
\<close>

record Store =
  cubies :: "Cubie list"
  moveQueue :: "Move list"

record ScreenCube = Store +
  currentMoveRef :: "Move option"
  progressRef :: real
  isAnimatingRef :: bool
  pivotRef :: "Quaternion option"

definition handleMoveComplete :: "'a list \<Rightarrow> 'a list" where
  "handleMoveComplete prev = drop 1 prev"

definition finishCubies :: "Move \<Rightarrow> Cubie list \<Rightarrow> Cubie list" where
  "finishCubies move prev =
     (let angle = (pi / 2) * direction move;
          qRot = setFromAxisAngle (axisVec (axis move)) angle
      in map (\<lambda>c. if isInSlice (position c) (axis move) (slice move)
                    then turnCubie qRot c else c) prev)"

definition finishMove :: "Move \<Rightarrow> ScreenCube \<Rightarrow> ScreenCube" where
  "finishMove move s =
     s\<lparr>cubies := finishCubies move (cubies s),
       pivotRef := map_option (\<lambda>_. newQuaternion) (pivotRef s),
       isAnimatingRef := False,
       currentMoveRef := None,
       progressRef := 0,
       moveQueue := handleMoveComplete (moveQueue s)\<rparr>"

definition startScreen :: "ScreenCube \<Rightarrow> ScreenCube" where
  "startScreen s =
     (if \<not> isAnimatingRef s \<and> length (moveQueue s) > 0
      then s\<lparr>currentMoveRef := Some (moveQueue s ! 0), isAnimatingRef := True, progressRef := 0\<rparr>
      else s)"

definition useFrame :: "ScreenCube \<Rightarrow> real \<Rightarrow> ScreenCube" where
  "useFrame s0 delta =
     (let s = startScreen s0 in
      case (isAnimatingRef s, currentMoveRef s, pivotRef s) of
        (True, Some move, Some _) \<Rightarrow>
          (let speed = (if length (moveQueue s) > 5 then 20 else 6);
               s' = s\<lparr>progressRef := progressRef s + delta * speed\<rparr>
           in if progressRef s' \<ge> 1 then finishMove move s'
              else (let angle = (pi / 2) * direction move * progressRef s'
                    in s'\<lparr>pivotRef := Some (setFromAxisAngle (axisVec (axis move)) angle)\<rparr>))
      | _ \<Rightarrow> s)"

definition initScreen :: ScreenCube where
  "initScreen =
     \<lparr>cubies = initCubies, moveQueue = [], currentMoveRef = None, progressRef = 0,
      isAnimatingRef = False, pivotRef = Some newQuaternion\<rparr>"


text \<open>
  The states the machine can be in: frames arrive with any elapsed time, and \<open>App\<close>
  may append a move of the table to the queue at any moment (a button, a resolved drag,
  or one element of a scramble batch).
\<close>

inductive reachScreen :: "ScreenCube \<Rightarrow> bool" where
  rs_init: "reachScreen initScreen"
| rs_tick: "reachScreen s \<Longrightarrow> reachScreen (useFrame s delta)"
| rs_enqueue: "reachScreen s \<Longrightarrow> m \<in> set moveTable \<Longrightarrow>
     reachScreen (s\<lparr>moveQueue := moveQueue s @ [m]\<rparr>)"

section \<open>The animation state machine of src/components/Cube3D.tsx\<close>

record Mesh =
  mposition :: Vector3
  mquaternion :: Quaternion

record MeshCube = Store +
  isAnimating :: bool
  currentMove :: "Move option"
  moveProgress :: real
  activeCubieIds :: "nat list"
  cubieRefs :: "nat \<rightharpoonup> Mesh"

definition ANIMATION_SPEED :: real where
  "ANIMATION_SPEED = 5.0"

text \<open>Step 1 of the frame callback: the snapshot of the ids in the slice of the move.\<close>

definition activeIds :: "Move \<Rightarrow> Cubie list \<Rightarrow> nat list" where
  "activeIds move cs =
     map cid (filter (\<lambda>c. let pos = position c in
                           (case axis move of
                              X \<Rightarrow> \<bar>vx pos - slice move\<bar> < 0.1
                            | Y \<Rightarrow> \<bar>vy pos - slice move\<bar> < 0.1
                            | Z \<Rightarrow> \<bar>vz pos - slice move\<bar> < 0.1)) cs)"

definition startMesh :: "MeshCube \<Rightarrow> MeshCube" where
  "startMesh s =
     (if \<not> isAnimating s \<and> length (moveQueue s) > 0
      then (let move = moveQueue s ! 0
            in s\<lparr>currentMove := Some move, isAnimating := True, moveProgress := 0,
                 activeCubieIds := activeIds move (cubies s)\<rparr>)
      else s)"

text \<open>The per-frame rotation of the meshes of the active ids (visual only).\<close>

definition rotateMeshes :: "Quaternion \<Rightarrow> nat list \<Rightarrow> (nat \<rightharpoonup> Mesh) \<Rightarrow> (nat \<rightharpoonup> Mesh)" where
  "rotateMeshes rotQuat ids refs =
     foldl (\<lambda>r i. case r i of
                     Some mesh \<Rightarrow>
                       r(i \<mapsto> mesh\<lparr>mposition := applyQuaternion (mposition mesh) rotQuat,
                                    mquaternion := premultiply (mquaternion mesh) rotQuat\<rparr>)
                   | None \<Rightarrow> r) refs ids"

text \<open>The commit: \<open>setCubies(prev => prev.map(...))\<close>, with the mesh of each rewritten
  cubie synchronised to the new values.\<close>

definition commitCubies :: "nat list \<Rightarrow> Quaternion \<Rightarrow> Cubie list \<Rightarrow> Cubie list" where
  "commitCubies ids finalRotation prev =
     map (\<lambda>c. if cid c \<in> set ids then turnCubie finalRotation c else c) prev"

definition syncMesh :: "(nat \<rightharpoonup> Mesh) \<Rightarrow> Cubie \<Rightarrow> (nat \<rightharpoonup> Mesh)" where
  "syncMesh r c =
     (case r (cid c) of
        Some mesh \<Rightarrow> r(cid c \<mapsto> mesh\<lparr>mposition := position c, mquaternion := rotation c\<rparr>)
      | None \<Rightarrow> r)"

definition commitRefs :: "nat list \<Rightarrow> Quaternion \<Rightarrow> Cubie list \<Rightarrow> (nat \<rightharpoonup> Mesh) \<Rightarrow> (nat \<rightharpoonup> Mesh)" where
  "commitRefs ids finalRotation prev refs =
     foldl (\<lambda>r c. if cid c \<in> set ids then syncMesh r (turnCubie finalRotation c) else r) refs prev"

definition useFrame3D :: "MeshCube \<Rightarrow> real \<Rightarrow> MeshCube" where
  "useFrame3D s0 delta =
     (let s = startMesh s0 in
      case (isAnimating s, currentMove s) of
        (True, Some move) \<Rightarrow>
          (let step = ANIMATION_SPEED * delta;
               target = pi / 2;
               frameRotation = (if moveProgress s + step > target
                                then target - moveProgress s else step);
               rotQuat = setFromAxisAngle (axisVec (axis move)) (frameRotation * direction move);
               s1 = s\<lparr>moveProgress := moveProgress s + frameRotation,
                      cubieRefs := rotateMeshes rotQuat (activeCubieIds s) (cubieRefs s)\<rparr>
           in if moveProgress s1 \<ge> target
              then (let finalRotation =
                          setFromAxisAngle (axisVec (axis move)) ((pi / 2) * direction move)
                    in s1\<lparr>isAnimating := False,
                          cubies := commitCubies (activeCubieIds s1) finalRotation (cubies s1),
                          cubieRefs := commitRefs (activeCubieIds s1) finalRotation (cubies s1)
                                         (cubieRefs s1),
                          moveQueue := handleMoveComplete (moveQueue s1),
                          currentMove := None\<rparr>)
              else s1)
      | _ \<Rightarrow> s)"

text \<open>After the first render every cubie has its mesh, placed at the cubie's values.\<close>

definition initMesh :: MeshCube where
  "initMesh =
     \<lparr>cubies = initCubies3D, moveQueue = [], isAnimating = False, currentMove = None,
      moveProgress = 0, activeCubieIds = [],
      cubieRefs = map_of (map (\<lambda>c. (cid c, \<lparr>mposition = position c, mquaternion = rotation c\<rparr>))
                              initCubies3D)\<rparr>"

inductive reachMesh :: "MeshCube \<Rightarrow> bool" where
  rm_init: "reachMesh initMesh"
| rm_tick: "reachMesh s \<Longrightarrow> reachMesh (useFrame3D s delta)"
| rm_enqueue: "reachMesh s \<Longrightarrow> m \<in> set moveTable \<Longrightarrow>
     reachMesh (s\<lparr>moveQueue := moveQueue s @ [m]\<rparr>)"

section \<open>The screen-space move resolver (part\_000, determineBestMove)\<close>

text \<open>
  The camera is a parameter: \<open>project\<close> stands for \<open>v.project(camera)\<close>. The running
  maximum starts at \<open>-Infinity\<close>, modelled as \<open>None\<close>. \<open>Vector3.sub\<close> works in place
  and returns its receiver, so after \<open>rotatedPos.sub(originalPos)\<close> the name
  \<open>rotatedPos\<close> denotes the difference, and that is what is projected as \<open>p2\<close>.
\<close>

definition scoreMove :: "(Vector3 \<Rightarrow> Vector3) \<Rightarrow> Cubie \<Rightarrow> Vector2 \<Rightarrow> Move \<Rightarrow> real option" where
  "scoreMove project cubie dragDir move =
     (if \<not> isInSlice (position cubie) (axis move) (slice move) then None
      else
        (let angle = degToRad 10 * direction move;
             q = setFromAxisAngle (axisVec (axis move)) angle;
             originalPos = position cubie;
             rotatedPos = applyQuaternion originalPos q;
             delta3D = sub3 rotatedPos originalPos
         in if lengthSq delta3D < 0.001 then None
            else
              (let p1 = project originalPos;
                   p2 = project delta3D;
                   p1Screen = Vector2 (vx p1) (- vy p1);
                   p2Screen = Vector2 (vx p2) (- vy p2);
                   projectedDir = normalize2 (sub2 p2Screen p1Screen)
               in Some (dot2 projectedDir dragDir))))"

definition determineBestMove :: "(Vector3 \<Rightarrow> Vector3) \<Rightarrow> Cubie \<Rightarrow> Vector2 \<Rightarrow> string option" where
  "determineBestMove project cubie dragDelta =
     (let dragDir = normalize2 dragDelta;
          (maxScore, bestMoveKey) =
            foldl (\<lambda>(maxScore, bestMoveKey) (key, move).
                     case scoreMove project cubie dragDir move of
                       None \<Rightarrow> (maxScore, bestMoveKey)
                     | Some score \<Rightarrow>
                         (if (case maxScore of None \<Rightarrow> True | Some m \<Rightarrow> score > m)
                          then (Some score, key) else (maxScore, bestMoveKey)))
                  (None, []) MOVES
      in case maxScore of
           None \<Rightarrow> None
         | Some m \<Rightarrow> if m > 0.5 then Some bestMoveKey else None)"

section \<open>Materials\<close>

datatype Material = Right | Left | Top | Bottom | Front | Back | Core

definition FACE_COLORS :: "Material \<Rightarrow> string" where
  "FACE_COLORS m =
     (case m of Right \<Rightarrow> ''#b90000'' | Left \<Rightarrow> ''#ff5900'' | Top \<Rightarrow> ''#ffffff''
      | Bottom \<Rightarrow> ''#ffd500'' | Front \<Rightarrow> ''#009b48'' | Back \<Rightarrow> ''#0045ad''
      | Core \<Rightarrow> ''#1a1a1a'')"

text \<open>Cube3D.tsx, lines 421-432: the six materials of a cubie, decoded from its id.\<close>

definition myMaterials :: "Cubie \<Rightarrow> Material list" where
  "myMaterials cubie =
     (let iz = int (cid cubie mod 3) - 1;
          iy = int ((cid cubie mod 9) div 3) - 1;
          ix = int (cid cubie div 9) - 1
      in [if ix = 1 then Right else Core,
          if ix = -1 then Left else Core,
          if iy = 1 then Top else Core,
          if iy = -1 then Bottom else Core,
          if iz = 1 then Front else Core,
          if iz = -1 then Back else Core])"

text \<open>part\_000, lines 239-246: one array of six materials, handed to every cubie.\<close>

definition materials :: "Material list" where
  "materials = [Right, Left, Top, Bottom, Front, Back]"

definition cubieMeshMaterials :: "Cubie \<Rightarrow> Material list" where
  "cubieMeshMaterials cubie = materials"

text \<open>
  The colouring the specification describes: a face is coloured when the cubie's
  original lattice coordinate puts it on that face of the cube.
\<close>

definition colorAssignment :: "int \<times> int \<times> int \<Rightarrow> Material list" where
  "colorAssignment c =
     (case c of (x, y, z) \<Rightarrow>
        [if x = 1 then Right else Core,
         if x = -1 then Left else Core,
         if y = 1 then Top else Core,
         if y = -1 then Bottom else Core,
         if z = 1 then Front else Core,
         if z = -1 then Back else Core])"

section \<open>App.tsx: the queue, enqueueing and the scramble\<close>

text \<open>
  \<open>MOVES[moveKey]\<close> is a property read on an object literal: an own key gives its move,
  and any other key is looked up on \<open>Object.prototype\<close>, whose members are all truthy
  (functions, and the prototype object for \<open>__proto__\<close>); every other key gives
  \<open>undefined\<close>. The queue therefore holds JavaScript values.
\<close>

datatype JSValue = MoveValue Move | Inherited string | Undefined

definition objectPrototypeKeys :: "string list" where
  "objectPrototypeKeys =
     [''constructor'', ''__proto__'', ''hasOwnProperty'', ''isPrototypeOf'',
      ''propertyIsEnumerable'', ''toLocaleString'', ''toString'', ''valueOf'',
      ''__defineGetter__'', ''__defineSetter__'', ''__lookupGetter__'', ''__lookupSetter__'']"

definition MOVES_get :: "string \<Rightarrow> JSValue" where
  "MOVES_get key =
     (case map_of MOVES key of
        Some m \<Rightarrow> MoveValue m
      | None \<Rightarrow> if key \<in> set objectPrototypeKeys then Inherited key else Undefined)"

definition truthy :: "JSValue \<Rightarrow> bool" where
  "truthy v = (v \<noteq> Undefined)"

definition handleMove :: "string \<Rightarrow> JSValue list \<Rightarrow> JSValue list" where
  "handleMove moveKey prev =
     (let move = MOVES_get moveKey in if truthy move then prev @ [move] else prev)"

text \<open>
  \<open>randInt(min, max)\<close> on the value \<open>u\<close> that \<open>Math.random()\<close> returned. The scramble
  reads its random values from a list; a run that needs more values than the list holds
  stops with \<open>NeedsMoreDraws\<close>. A key index outside the table reads \<open>undefined\<close>, and
  \<open>move.axis\<close> then throws.
\<close>

definition randInt :: "int \<Rightarrow> int \<Rightarrow> real \<Rightarrow> int" where
  "randInt lo hi u = \<lfloor>u * of_int (hi - lo + 1)\<rfloor> + lo"

datatype ScrambleStop = TypeError | NeedsMoreDraws

definition scrambleKeys :: "string list" where
  "scrambleKeys = map fst MOVES"

definition drawMove :: "real \<Rightarrow> ScrambleStop + Move" where
  "drawMove u =
     (let i = randInt 0 (int (length scrambleKeys) - 1) u
      in if 0 \<le> i \<and> i < int (length scrambleKeys)
         then (case map_of MOVES (scrambleKeys ! nat i) of
                 Some move \<Rightarrow> Inr move
               | None \<Rightarrow> Inl TypeError)
         else Inl TypeError)"

text \<open>The inner \<open>while (move.axis === lastAxis)\<close>; \<open>lastAxis = ''\<close> is \<open>None\<close>.\<close>

fun redraw :: "Axis option \<Rightarrow> Move \<Rightarrow> real list \<Rightarrow> ScrambleStop + (Move \<times> real list)" where
  "redraw lastAxis move [] =
     (if Some (axis move) = lastAxis then Inl NeedsMoreDraws else Inr (move, []))"
| "redraw lastAxis move (u # us) =
     (if Some (axis move) = lastAxis
      then (case drawMove u of
              Inl e \<Rightarrow> Inl e
            | Inr move' \<Rightarrow> redraw lastAxis move' us)
      else Inr (move, u # us))"

text \<open>The outer \<open>for\<close> loop, with the number of iterations still to run.\<close>

fun scrambleLoop :: "nat \<Rightarrow> Axis option \<Rightarrow> Move list \<Rightarrow> real list \<Rightarrow> ScrambleStop + Move list" where
  "scrambleLoop 0 lastAxis newMoves us = Inr newMoves"
| "scrambleLoop (Suc n) lastAxis newMoves [] = Inl NeedsMoreDraws"
| "scrambleLoop (Suc n) lastAxis newMoves (u # us) =
     (case drawMove u of
        Inl e \<Rightarrow> Inl e
      | Inr move0 \<Rightarrow>
          (case redraw lastAxis move0 us of
             Inl e \<Rightarrow> Inl e
           | Inr (move, us') \<Rightarrow>
               scrambleLoop n (Some (axis move)) (newMoves @ [move]) us'))"

definition scrambleMoves :: "real list \<Rightarrow> ScrambleStop + Move list" where
  "scrambleMoves us = scrambleLoop 20 None [] us"

definition scramble :: "real list \<Rightarrow> JSValue list \<Rightarrow> ScrambleStop + JSValue list" where
  "scramble us prev =
     (case scrambleMoves us of
        Inl e \<Rightarrow> Inl e
      | Inr newMoves \<Rightarrow> Inr (prev @ map MoveValue newMoves))"

section \<open>Auxiliary notions for the proofs\<close>

text \<open>The exact quarter turn of a vector about a coordinate axis, in the sense \<open>d\<close>.\<close>

definition rot90 :: "Axis \<Rightarrow> real \<Rightarrow> Vector3 \<Rightarrow> Vector3" where
  "rot90 ax d v =
     (case ax of
        X \<Rightarrow> Vector3 (vx v) (- d * vz v) (d * vy v)
      | Y \<Rightarrow> Vector3 (d * vz v) (vy v) (- d * vx v)
      | Z \<Rightarrow> Vector3 (- d * vy v) (d * vx v) (vz v))"

text \<open>The quaternion both commits build for a move of sense \<open>d\<close> about \<open>ax\<close>.\<close>

definition quarter :: "Axis \<Rightarrow> real \<Rightarrow> Quaternion" where
  "quarter ax d = setFromAxisAngle (axisVec ax) ((pi / 2) * d)"

text \<open>The 27 points of the lattice \<open>{-1,0,1}\<^sup>3\<close>.\<close>

definition unit3 :: "real set" where
  "unit3 = {-1, 0, 1}"

definition onLattice :: "Vector3 \<Rightarrow> bool" where
  "onLattice v \<longleftrightarrow> vx v \<in> unit3 \<and> vy v \<in> unit3 \<and> vz v \<in> unit3"

definition lattice :: "Vector3 set" where
  "lattice = {v. onLattice v}"

text \<open>A store whose positions are the lattice points, each exactly once.\<close>

definition bijLattice :: "Cubie list \<Rightarrow> bool" where
  "bijLattice cs \<longleftrightarrow> distinct (map position cs) \<and> set (map position cs) = lattice"

text \<open>The map a commit applies to positions, and to a cubie of the slice, on the lattice.\<close>

definition slicePerm :: "Move \<Rightarrow> Vector3 \<Rightarrow> Vector3" where
  "slicePerm m p =
     (if isInSlice p (axis m) (slice m) then rot90 (axis m) (direction m) p else p)"

definition turned :: "Move \<Rightarrow> Cubie \<Rightarrow> Cubie" where
  "turned m c =
     c\<lparr>position := rot90 (axis m) (direction m) (position c),
       rotation := multiplyQuaternions (quarter (axis m) (direction m)) (rotation c)\<rparr>"

text \<open>The invariants of the two machines.\<close>

definition wellStore :: "Cubie list \<Rightarrow> bool" where
  "wellStore cs \<longleftrightarrow> bijLattice cs \<and> map cid cs = [0..<27]"

definition tableMove :: "Move \<Rightarrow> bool" where
  "tableMove m \<longleftrightarrow> m \<in> set moveTable"

definition invScreen :: "ScreenCube \<Rightarrow> bool" where
  "invScreen s \<longleftrightarrow>
     wellStore (cubies s) \<and> list_all tableMove (moveQueue s)
     \<and> (case currentMoveRef s of None \<Rightarrow> True | Some m \<Rightarrow> tableMove m)"

definition invMesh :: "MeshCube \<Rightarrow> bool" where
  "invMesh s \<longleftrightarrow>
     wellStore (cubies s) \<and> list_all tableMove (moveQueue s)
     \<and> (if isAnimating s
         then (case currentMove s of
                 None \<Rightarrow> False
               | Some m \<Rightarrow> tableMove m \<and> activeCubieIds s = activeIds m (cubies s))
         else True)"

text \<open>A list map that touches only the cubies of the slice of a move.\<close>

definition inSliceMap :: "Move \<Rightarrow> (Cubie \<Rightarrow> Cubie) \<Rightarrow> Cubie list \<Rightarrow> Cubie list" where
  "inSliceMap m f cs =
     map (\<lambda>c. if isInSlice (position c) (axis m) (slice m) then f c else c) cs"

text \<open>A dyadic number \<open>m \<cdot> 2\<^sup>e\<close>, and the rounding of a mantissa to \<open>k\<close> fewer bits.\<close>

definition dy :: "int \<Rightarrow> int \<Rightarrow> real" where
  "dy m e = of_int m * 2 powr of_int e"

definition roundShift :: "int \<Rightarrow> nat \<Rightarrow> int" where
  "roundShift m k =
     (let q = m div 2 ^ k; r = m mod 2 ^ k; h = 2 ^ (k - 1)
      in if r < h then q else if r > h then q + 1 else if even q then q else q + 1)"

text \<open>The doubles of a quarter turn.\<close>

definition sinQ :: real where
  "sinQ = 1592262918131443 / 2 ^ 51"

definition cosQ :: real where
  "cosQ = 6369051672525773 / 2 ^ 53"

text \<open>
  The sizes in which a rotation is compared with another: the sum of the absolute
  values of the components of a quaternion, the largest difference between the
  components of two quaternions, and the quaternion negated, which rotates every vector
  as the quaternion does.
\<close>

definition qnorm1 :: "Quaternion \<Rightarrow> real" where
  "qnorm1 q = \<bar>qx q\<bar> + \<bar>qy q\<bar> + \<bar>qz q\<bar> + \<bar>qw q\<bar>"

definition qdist :: "Quaternion \<Rightarrow> Quaternion \<Rightarrow> real" where
  "qdist a b = max (max \<bar>qx a - qx b\<bar> \<bar>qy a - qy b\<bar>) (max \<bar>qz a - qz b\<bar> \<bar>qw a - qw b\<bar>)"

definition negQ :: "Quaternion \<Rightarrow> Quaternion" where
  "negQ q = Quaternion (- qx q) (- qy q) (- qz q) (- qw q)"

text \<open>Half the spacing of the subnormal doubles, the largest error of a rounding near 0.\<close>

definition minHalfUlp :: real where
  "minHalfUlp = 2 powr (- 1075)"

text \<open>
  What a product with a quarter-turn quaternion does to the two components that the
  turn mixes: \<open>a\<close> becomes the rounded \<open>cosQ a + p b\<close> and \<open>b\<close> the rounded
  \<open>cosQ b - p a\<close>, with \<open>p\<close> the sine, signed.
\<close>

definition mix :: "real \<Rightarrow> real \<Rightarrow> real \<Rightarrow> real" where
  "mix p a b = dbl (dbl (cosQ * a) + dbl (p * b))"

definition turnPair :: "real \<Rightarrow> real \<times> real \<Rightarrow> real \<times> real" where
  "turnPair p v = (mix p (fst v) (snd v), mix (- p) (snd v) (fst v))"

text \<open>While a move is animating in Cube3D.tsx it is the head of the queue.\<close>

definition headMesh :: "MeshCube \<Rightarrow> bool" where
  "headMesh s \<longleftrightarrow>
     (isAnimating s \<longrightarrow> moveQueue s \<noteq> [] \<and> currentMove s = Some (moveQueue s ! 0))"

section \<open>Basic facts\<close>

lemma latticeOrder_eq: "latticeOrder =
  [(-1,-1,-1),(-1,-1,0),(-1,-1,1),(-1,0,-1),(-1,0,0),(-1,0,1),(-1,1,-1),(-1,1,0),(-1,1,1),
   (0,-1,-1),(0,-1,0),(0,-1,1),(0,0,-1),(0,0,0),(0,0,1),(0,1,-1),(0,1,0),(0,1,1),
   (1,-1,-1),(1,-1,0),(1,-1,1),(1,0,-1),(1,0,0),(1,0,1),(1,1,-1),(1,1,0),(1,1,1)]"
  by (simp add: latticeOrder_def upto.simps)

lemma cubies_startScreen: "cubies (startScreen s) = cubies s"
  by (simp add: startScreen_def)

lemma cubies_startMesh: "cubies (startMesh s) = cubies s"
  by (simp add: startMesh_def Let_def)

lemma cubies_finishMove: "cubies (finishMove move s) = finishCubies move (cubies s)"
  by (simp add: finishMove_def)

text \<open>What a frame does to the logical cubies, in each machine.\<close>

lemma cubies_useFrame:
  "cubies (useFrame s delta) =
     (case (isAnimatingRef (startScreen s), currentMoveRef (startScreen s), pivotRef (startScreen s)) of
        (True, Some move, Some p) \<Rightarrow>
          if progressRef (startScreen s)
               + delta * (if length (moveQueue (startScreen s)) > 5 then 20 else 6) \<ge> 1
          then finishCubies move (cubies s) else cubies s
      | _ \<Rightarrow> cubies s)"
  by (simp add: useFrame_def Let_def cubies_startScreen cubies_finishMove
           split: bool.splits option.splits)

lemma cubies_useFrame3D:
  "cubies (useFrame3D s delta) =
     (case (isAnimating (startMesh s), currentMove (startMesh s)) of
        (True, Some move) \<Rightarrow>
          if moveProgress (startMesh s) + ANIMATION_SPEED * delta \<ge> pi / 2
          then commitCubies (activeCubieIds (startMesh s))
                 (setFromAxisAngle (axisVec (axis move)) ((pi / 2) * direction move)) (cubies s)
          else cubies s
      | _ \<Rightarrow> cubies s)"
  by (auto simp add: useFrame3D_def Let_def cubies_startMesh
           split: bool.splits option.splits)

lemma U1_tableMove: "mkMove Y 1 (-1) ''U'' \<in> set moveTable"
  by (simp add: moveTable_def MOVES_def)

lemma mkMove_sel:
  "axis (mkMove a s d n) = a" "slice (mkMove a s d n) = s" "direction (mkMove a s d n) = d"
  by (simp_all add: mkMove_def)

subsection \<open>Rounding to a double\<close>

lemma roundEven_of_int [simp]: "roundEven (of_int n) = n"
  by (simp add: roundEven_def)

lemma roundEven_err: "\<bar>of_int (roundEven y) - y\<bar> \<le> 1 / 2"
proof -
  have "of_int \<lfloor>y\<rfloor> \<le> y" "y < of_int \<lfloor>y\<rfloor> + 1" by linarith+
  then show ?thesis
    by (auto simp: roundEven_def Let_def)
qed

lemma roundEven_minus: "roundEven (- y) = - roundEven y"
proof (cases "y = of_int \<lfloor>y\<rfloor>")
  case True
  then obtain n where "y = of_int n" ..
  then show ?thesis
    using roundEven_of_int [of "- n"] by simp
next
  case False
  let ?n = "\<lfloor>y\<rfloor>"
  have lo: "of_int ?n < y"
  proof (rule le_neq_trans)
    show "of_int ?n \<le> y" by (rule of_int_floor_le)
    show "of_int ?n \<noteq> y" using False by (rule not_sym)
  qed
  have hi: "y < of_int ?n + 1" by linarith
  have f: "\<lfloor>- y\<rfloor> = - ?n - 1"
  proof (rule floor_unique)
    have c: "real_of_int (- ?n - 1) = - of_int ?n - 1" by simp
    show "of_int (- ?n - 1) \<le> - y" unfolding c using hi by linarith
    show "- y < of_int (- ?n - 1) + 1" unfolding c using lo by linarith
  qed
  have ni: "y \<noteq> of_int n" for n
    using False by (metis floor_of_int)
  show ?thesis
    unfolding roundEven_def Let_def f using lo hi ni [of "?n + 1"] by auto
qed

lemma dbl_0 [simp]: "dbl 0 = 0"
  by (simp add: dbl_def)

lemma dbl_minus: "dbl (- t) = - dbl t"
  by (simp add: dbl_def Let_def roundEven_minus)

lemma powr_floor_log2:
  assumes "t \<noteq> 0"
  shows "2 powr of_int \<lfloor>log 2 \<bar>t\<bar>\<rfloor> \<le> \<bar>t\<bar>" and "\<bar>t\<bar> < 2 powr (of_int \<lfloor>log 2 \<bar>t\<bar>\<rfloor> + 1)"
proof -
  have pos: "0 < \<bar>t\<bar>" using assms by simp
  have "\<lfloor>log 2 \<bar>t\<bar>\<rfloor> = \<lfloor>log 2 \<bar>t\<bar>\<rfloor>" ..
  then have "2 powr of_int \<lfloor>log 2 \<bar>t\<bar>\<rfloor> \<le> \<bar>t\<bar> \<and> \<bar>t\<bar> < 2 powr of_int (\<lfloor>log 2 \<bar>t\<bar>\<rfloor> + 1)"
    using floor_log_eq_powr_iff [OF pos, of 2 "\<lfloor>log 2 \<bar>t\<bar>\<rfloor>"] by simp
  then show "2 powr of_int \<lfloor>log 2 \<bar>t\<bar>\<rfloor> \<le> \<bar>t\<bar>" and "\<bar>t\<bar> < 2 powr (of_int \<lfloor>log 2 \<bar>t\<bar>\<rfloor> + 1)"
    by simp_all
qed

lemma dbl_err: "\<bar>dbl t - t\<bar> \<le> \<bar>t\<bar> / 2 ^ 53 + minHalfUlp"
proof (cases "t = 0")
  case True
  then show ?thesis by (simp add: minHalfUlp_def)
next
  case False
  define e where "e = \<lfloor>log 2 \<bar>t\<bar>\<rfloor>"
  define u :: real where "u = 2 powr (of_int (max e (- 1022)) - 52)"
  have upos: "0 < u" by (simp add: u_def)
  have d: "dbl t = of_int (roundEven (t / u)) * u"
    using False by (simp add: dbl_def Let_def u_def e_def)
  have "\<bar>dbl t - t\<bar> = \<bar>of_int (roundEven (t / u)) - t / u\<bar> * u"
  proof -
    have "dbl t - t = (of_int (roundEven (t / u)) - t / u) * u"
      unfolding d using upos by (simp add: field_simps)
    then show ?thesis
      using upos by (simp add: abs_mult)
  qed
  also have "\<dots> \<le> 1 / 2 * u"
    using roundEven_err [of "t / u"] upos by (intro mult_right_mono) simp_all
  finally have half: "\<bar>dbl t - t\<bar> \<le> u / 2" by simp
  show ?thesis
  proof (cases "- 1022 \<le> e")
    case True
    then have "u = 2 powr of_int e / 2 ^ 52"
      by (simp add: u_def max_def powr_diff)
    also have "\<dots> \<le> \<bar>t\<bar> / 2 ^ 52"
      using powr_floor_log2(1) [OF False] by (simp add: divide_right_mono e_def)
    finally have "u / 2 \<le> \<bar>t\<bar> / 2 ^ 53" by simp
    with half have "\<bar>dbl t - t\<bar> \<le> \<bar>t\<bar> / 2 ^ 53" by simp
    then show ?thesis
      by (rule add_increasing2 [rotated]) (simp add: minHalfUlp_def)
  next
    case False
    then have "u = 2 powr (- 1074)"
      by (simp add: u_def max_def)
    then have "u / 2 = 2 powr (- 1074) * 2 powr (- 1)"
      by (simp only: powr_minus_divide powr_one)
    also have "\<dots> = minHalfUlp"
      unfolding minHalfUlp_def powr_add [symmetric] by simp
    finally have "\<bar>dbl t - t\<bar> \<le> minHalfUlp"
      using half by simp
    then show ?thesis
      by (rule add_increasing [rotated]) simp
  qed
qed

lemma roundEven_shift:
  assumes "0 < k"
  shows "roundEven (of_int m / 2 ^ k) = roundShift m k"
proof -
  have fl: "\<lfloor>real_of_int m / 2 ^ k\<rfloor> = m div 2 ^ k"
    using floor_divide_of_int_eq [of m "2 ^ k"] by simp
  have "m = m div 2 ^ k * 2 ^ k + m mod 2 ^ k"
    by (rule div_mult_mod_eq [symmetric])
  then have "real_of_int m = real_of_int (m div 2 ^ k * 2 ^ k + m mod 2 ^ k)"
    by (rule arg_cong)
  then have "real_of_int m = real_of_int (m div 2 ^ k) * 2 ^ k + real_of_int (m mod 2 ^ k)"
    by (simp only: of_int_add of_int_mult of_int_power of_int_numeral)
  then have r: "real_of_int m / 2 ^ k - real_of_int (m div 2 ^ k) = real_of_int (m mod 2 ^ k) / 2 ^ k"
    by (simp add: field_simps)
  have h: "(2::real) ^ k = 2 * 2 ^ (k - 1)"
    using assms by (cases k) simp_all
  have lt: "real_of_int (m mod 2 ^ k) / 2 ^ k < 1 / 2 \<longleftrightarrow> m mod 2 ^ k < 2 ^ (k - 1)"
  proof -
    have "real_of_int (m mod 2 ^ k) / 2 ^ k < 1 / 2
          \<longleftrightarrow> real_of_int (m mod 2 ^ k) < real_of_int (2 ^ (k - 1))"
      by (simp add: h field_simps)
    then show ?thesis by (simp only: of_int_less_iff)
  qed
  have gt: "real_of_int (m mod 2 ^ k) / 2 ^ k > 1 / 2 \<longleftrightarrow> m mod 2 ^ k > 2 ^ (k - 1)"
  proof -
    have "real_of_int (m mod 2 ^ k) / 2 ^ k > 1 / 2
          \<longleftrightarrow> real_of_int (m mod 2 ^ k) > real_of_int (2 ^ (k - 1))"
      by (simp add: h field_simps)
    then show ?thesis by (simp only: of_int_less_iff)
  qed
  show ?thesis
    unfolding roundEven_def roundShift_def Let_def fl r lt gt ..
qed

lemma floor_log2_dy:
  assumes "m \<noteq> 0"
  shows "\<lfloor>log 2 \<bar>dy m e\<bar>\<rfloor> = bitlen \<bar>m\<bar> - 1 + e"
proof -
  let ?b = "bitlen \<bar>m\<bar>"
  from assms have pos: "0 < \<bar>m\<bar>" by simp
  from bitlen_bounds [OF pos] have lo: "2 ^ nat (?b - 1) \<le> \<bar>m\<bar>" and hi: "\<bar>m\<bar> < 2 ^ nat ?b"
    by simp_all
  have b1: "1 \<le> ?b" using pos by (simp add: bitlen_alt_def)
  have abs: "\<bar>dy m e\<bar> = real_of_int \<bar>m\<bar> * 2 powr of_int e"
    by (simp add: dy_def abs_mult)
  have "2 powr of_int (?b - 1) = (2::real) ^ nat (?b - 1)"
    using b1 by (simp add: powr_realpow [symmetric])
  also have "\<dots> = real_of_int (2 ^ nat (?b - 1))"
    by simp
  also have "\<dots> \<le> real_of_int \<bar>m\<bar>"
    using lo by (simp only: of_int_le_iff)
  finally have lo': "2 powr of_int (?b - 1) \<le> real_of_int \<bar>m\<bar>" .
  have "real_of_int \<bar>m\<bar> < real_of_int (2 ^ nat ?b)"
    using hi by (simp only: of_int_less_iff)
  also have "\<dots> = (2::real) ^ nat ?b"
    by simp
  also have "\<dots> = 2 powr of_int ?b"
    using b1 by (simp add: powr_realpow [symmetric])
  finally have hi': "real_of_int \<bar>m\<bar> < 2 powr of_int ?b" .
  have "2 powr of_int (?b - 1 + e) \<le> \<bar>dy m e\<bar>"
    unfolding abs using lo' by (simp add: powr_add)
  moreover have "\<bar>dy m e\<bar> < 2 powr (of_int (?b - 1 + e) + 1)"
  proof -
    have "of_int (?b - 1 + e) + (1::real) = of_int ?b + of_int e" by simp
    then show ?thesis
      unfolding abs using hi' by (simp add: powr_add)
  qed
  moreover have "0 < \<bar>dy m e\<bar>"
    using assms by (simp add: dy_def)
  ultimately show ?thesis
    by (simp add: floor_log_eq_powr_iff)
qed


lemma dbl_dy:
  assumes "m \<noteq> 0" and "- 1022 \<le> bitlen \<bar>m\<bar> - 1 + e"
  shows "dbl (dy m e) =
           (if bitlen \<bar>m\<bar> \<le> 53 then dy m e
            else dy (roundShift m (nat (bitlen \<bar>m\<bar> - 53))) (e + (bitlen \<bar>m\<bar> - 53)))"
proof -
  let ?b = "bitlen \<bar>m\<bar>"
  have nz: "dy m e \<noteq> 0" using assms(1) by (simp add: dy_def)
  let ?u = "2 powr (of_int (max \<lfloor>log 2 \<bar>dy m e\<bar>\<rfloor> (- 1022)) - 52) :: real"
  have Eq: "max \<lfloor>log 2 \<bar>dy m e\<bar>\<rfloor> (- 1022) = ?b - 1 + e"
    using assms(2) by (simp only: floor_log2_dy [OF assms(1)] max_def) simp
  have u: "?u = 2 powr of_int (e + (?b - 53))"
    unfolding Eq by (simp add: algebra_simps)
  have d: "dbl (dy m e) = of_int (roundEven (dy m e / ?u)) * ?u"
    using nz by (simp add: dbl_def Let_def)
  show ?thesis
  proof (cases "?b \<le> 53")
    case True
    have "dy m e / ?u = dy m e / 2 powr of_int (e + (?b - 53))"
      by (simp only: u)
    also have "\<dots> = of_int m * 2 powr of_int (53 - ?b)"
      by (simp add: dy_def powr_diff powr_add field_simps)
    also have "\<dots> = of_int m * 2 ^ nat (53 - ?b)"
      using True by (simp add: powr_realpow [symmetric])
    also have "\<dots> = of_int (m * 2 ^ nat (53 - ?b))"
      by simp
    finally have q: "dy m e / ?u = of_int (m * 2 ^ nat (53 - ?b))" .
    have "dbl (dy m e) = of_int (m * 2 ^ nat (53 - ?b)) * ?u"
      unfolding d q by (simp only: roundEven_of_int)
    also have "\<dots> = dy m e / ?u * ?u"
      by (simp only: q)
    also have "\<dots> = dy m e"
      by simp
    finally show ?thesis using True by simp
  next
    case False
    then have k: "0 < nat (?b - 53)" by simp
    have "dy m e / ?u = dy m e / 2 powr of_int (e + (?b - 53))"
      by (simp only: u)
    also have "\<dots> = of_int m * 2 powr of_int (53 - ?b)"
      by (simp add: dy_def powr_diff powr_add field_simps)
    also have "\<dots> = of_int m / 2 powr of_int (?b - 53)"
      by (simp add: powr_diff field_simps)
    also have "\<dots> = of_int m / 2 ^ nat (?b - 53)"
      using False by (simp add: powr_realpow [symmetric])
    finally have q: "dy m e / ?u = of_int m / 2 ^ nat (?b - 53)" .
    have "dbl (dy m e) = of_int (roundShift m (nat (?b - 53))) * ?u"
      unfolding d q roundEven_shift [OF k] ..
    also have "\<dots> = dy (roundShift m (nat (?b - 53))) (e + (?b - 53))"
      by (simp only: u) (simp only: dy_def)
    finally show ?thesis
      using False by simp
  qed
qed

lemma dy_0 [simp]: "dy 0 e = 0"
  by (simp add: dy_def)

lemma dy_shift: "0 \<le> k \<Longrightarrow> dy a (e + k) = dy (a * 2 ^ nat k) e"
  by (simp add: dy_def powr_add powr_realpow [symmetric])

text \<open>A number with at most 53 bits of mantissa above the least exponent is a double.\<close>

lemma dbl_fix:
  assumes b: "bitlen \<bar>m\<bar> \<le> 53" and e: "- 1074 \<le> e"
  shows "dbl (dy m e) = dy m e"
proof (cases "m = 0")
  case True
  then show ?thesis by simp
next
  case False
  define E where "E = max \<lfloor>log 2 \<bar>dy m e\<bar>\<rfloor> (- 1022)"
  define k where "k = e - (E - 52)"
  define u :: real where "u = 2 powr (of_int E - 52)"
  have nz: "dy m e \<noteq> 0" using False by (simp add: dy_def)
  have E: "E = max (bitlen \<bar>m\<bar> - 1 + e) (- 1022)"
    unfolding E_def by (simp only: floor_log2_dy [OF False])
  have k: "0 \<le> k"
    using b e unfolding k_def E by (simp add: max_def)
  have upos: "0 < u" by (simp add: u_def)
  have "dy m e = dy m ((E - 52) + k)"
    by (simp add: k_def)
  also have "\<dots> = dy (m * 2 ^ nat k) (E - 52)"
    using k by (rule dy_shift)
  also have "\<dots> = of_int (m * 2 ^ nat k) * u"
    by (simp add: dy_def u_def)
  finally have q: "dy m e = of_int (m * 2 ^ nat k) * u" .
  then have "dy m e / u = of_int (m * 2 ^ nat k)"
    using upos by (simp add: field_simps)
  then have "roundEven (dy m e / u) = m * 2 ^ nat k"
    by (simp only: roundEven_of_int)
  moreover have "dbl (dy m e) = of_int (roundEven (dy m e / u)) * u"
    using nz by (simp add: dbl_def Let_def u_def E_def)
  ultimately show ?thesis
    using q by simp
qed

lemma dbl_range: "\<exists>n k. dbl t = dy n k \<and> bitlen \<bar>n\<bar> \<le> 53 \<and> - 1074 \<le> k"
proof (cases "t = 0")
  case True
  have "dbl t = dy 0 0 \<and> bitlen \<bar>0::int\<bar> \<le> 53 \<and> - 1074 \<le> (0::int)"
    using True by simp
  then show ?thesis by blast
next
  case False
  define e where "e = \<lfloor>log 2 \<bar>t\<bar>\<rfloor>"
  define E where "E = max e (- 1022)"
  define u :: real where "u = 2 powr (of_int E - 52)"
  define n where "n = roundEven (t / u)"
  have upos: "0 < u" by (simp add: u_def)
  have d: "dbl t = dy n (E - 52)"
    using False by (simp add: dbl_def Let_def u_def E_def e_def n_def dy_def)
  have "\<bar>t\<bar> < 2 powr (of_int e + 1)"
    unfolding e_def using False by (rule powr_floor_log2(2))
  also have "\<dots> \<le> 2 powr (of_int E + 1)"
    by (simp add: E_def)
  also have "\<dots> = u * 2 ^ 53"
  proof -
    have "of_int E + (1::real) = (of_int E - 52) + 53" by simp
    then have "2 powr (of_int E + 1) = 2 powr (of_int E - 52) * 2 powr (53::real)"
      by (simp only: powr_add)
    also have "2 powr (53::real) = (2::real) ^ 53"
      using powr_realpow [of "2::real" 53] by simp
    finally show ?thesis by (simp only: u_def)
  qed
  finally have "\<bar>t\<bar> / u < 2 ^ 53"
    using upos by (simp add: field_simps)
  then have tu: "\<bar>t / u\<bar> < 2 ^ 53"
    using upos by simp
  have "\<bar>real_of_int n\<bar> \<le> \<bar>of_int n - t / u\<bar> + \<bar>t / u\<bar>"
    by linarith
  also have "\<dots> < 1 / 2 + 2 ^ 53"
    using roundEven_err [of "t / u"] tu unfolding n_def by linarith
  finally have "real_of_int \<bar>n\<bar> < real_of_int (2 ^ 53) + 1 / 2"
    by simp
  then have nb: "\<bar>n\<bar> \<le> 2 ^ 53"
    by linarith
  have Elo: "- 1022 \<le> E" by (simp add: E_def)
  show ?thesis
  proof (cases "\<bar>n\<bar> < 2 ^ 53")
    case True
    then have "bitlen \<bar>n\<bar> \<le> 53"
      using bitlen_le_iff_power [of "\<bar>n\<bar>" 53] by simp
    moreover have "- 1074 \<le> E - 52" using Elo by simp
    ultimately show ?thesis using d by blast
  next
    case False
    with nb have "\<bar>n\<bar> = 2 ^ 53" by simp
    then have "n = 2 ^ 53 \<or> n = - (2 ^ 53)" by linarith
    then have "dy n (E - 52) = dy (if 0 < n then 1 else - 1) ((E - 52) + 53)"
      using dy_shift [of 53 "if 0 < n then 1 else - 1" "E - 52"] by auto
    with d have "dbl t = dy (if 0 < n then 1 else - 1) ((E - 52) + 53)"
      by (simp only:)
    moreover have "bitlen \<bar>if 0 < n then 1 else - 1 :: int\<bar> \<le> 53"
      by (simp add: bitlen_alt_def)
    moreover have "- 1074 \<le> (E - 52) + 53" using Elo by simp
    ultimately show ?thesis by blast
  qed
qed

lemma dbl_idem [simp]: "dbl (dbl t) = dbl t"
proof -
  obtain n k where "dbl t = dy n k" "bitlen \<bar>n\<bar> \<le> 53" "- 1074 \<le> k"
    using dbl_range by blast
  then show ?thesis
    by (simp add: dbl_fix)
qed

lemma dy_mult: "dy a e * dy b f = dy (a * b) (e + f)"
  by (simp add: dy_def powr_add)

lemma dy_uminus: "- dy a e = dy (- a) e"
  by (simp add: dy_def)

lemma dy_add:
  "dy a e + dy b f =
     (if e \<le> f then dy (a + b * 2 ^ nat (f - e)) e else dy (a * 2 ^ nat (e - f) + b) f)"
proof (cases "e \<le> f")
  case True
  then have "dy b f = dy (b * 2 ^ nat (f - e)) e"
    using dy_shift [of "f - e" b e] by simp
  with True show ?thesis by (simp add: dy_def algebra_simps)
next
  case False
  then have "dy a e = dy (a * 2 ^ nat (e - f)) f"
    using dy_shift [of "e - f" a f] by simp
  with False show ?thesis by (simp add: dy_def algebra_simps)
qed

lemma dy_diff: "dy a e - dy b f = dy a e + dy (- b) f"
  by (simp add: dy_def)

lemma dy_real:
  "dy m e = (if 0 \<le> e then of_int m * 2 ^ nat e else of_int m / 2 ^ nat (- e))"
  by (simp add: dy_def powr_realpow [symmetric] powr_minus_divide)

lemmas dy_eval = dy_mult dy_add dy_diff dy_uminus dbl_dy compute_bitlen roundShift_def Let_def

subsection \<open>The error of a quarter turn in doubles\<close>

lemma minHalfUlp_nonneg: "0 \<le> minHalfUlp"
  by (simp add: minHalfUlp_def)

lemma cosQ_bound: "\<bar>cosQ\<bar> \<le> 3 / 4"
  by (simp add: cosQ_def)

lemma sinQ_bound: "\<bar>sinQ\<bar> \<le> 3 / 4" "\<bar>- sinQ\<bar> \<le> 3 / 4"
  by (simp_all add: sinQ_def)

lemma prod_bound:
  fixes m a :: real
  assumes "\<bar>m\<bar> \<le> 3 / 4"
  shows "\<bar>m * a\<bar> \<le> 3 / 4 * \<bar>a\<bar>"
  unfolding abs_mult using assms by (rule mult_right_mono) simp

lemma dbl_prod_err:
  assumes "\<bar>m\<bar> \<le> 3 / 4"
  shows "\<bar>dbl (m * a) - m * a\<bar> \<le> 3 / 4 * \<bar>a\<bar> / 2 ^ 53 + minHalfUlp"
proof -
  have "\<bar>dbl (m * a) - m * a\<bar> \<le> \<bar>m * a\<bar> / 2 ^ 53 + minHalfUlp"
    by (rule dbl_err)
  moreover have "\<bar>m * a\<bar> / 2 ^ 53 \<le> 3 / 4 * \<bar>a\<bar> / 2 ^ 53"
    using prod_bound [OF assms] by (rule divide_right_mono) simp
  ultimately show ?thesis by linarith
qed

lemma sum_err:
  fixes x y A B u v :: real
  assumes "\<bar>x - A\<bar> \<le> u" and "\<bar>y - B\<bar> \<le> v"
  shows "\<bar>(x + y) - (A + B)\<bar> \<le> u + v"
  using assms by linarith

lemma abs_sum_le:
  fixes u v x y :: real
  assumes "\<bar>u\<bar> \<le> x" and "\<bar>v\<bar> \<le> y"
  shows "\<bar>u + v\<bar> \<le> x + y"
  using assms by linarith

lemma dbl_near:
  assumes "\<bar>x - t\<bar> \<le> E" and "\<bar>t\<bar> \<le> T"
  shows "\<bar>dbl x - t\<bar> \<le> E + (T + E) / 2 ^ 53 + minHalfUlp"
proof -
  have "\<bar>dbl x - x\<bar> \<le> \<bar>x\<bar> / 2 ^ 53 + minHalfUlp"
    by (rule dbl_err)
  moreover have "\<bar>x\<bar> \<le> T + E"
    using assms by linarith
  then have "\<bar>x\<bar> / 2 ^ 53 \<le> (T + E) / 2 ^ 53"
    by (rule divide_right_mono) simp
  ultimately show ?thesis
    using assms(1) by linarith
qed

lemma mix_err:
  assumes "\<bar>p\<bar> \<le> 3 / 4"
  shows "\<bar>mix p a b - (cosQ * a + p * b)\<bar> \<le> (\<bar>a\<bar> + \<bar>b\<bar>) / 2 ^ 52 + 4 * minHalfUlp"
proof -
  define N where "N = \<bar>a\<bar> + \<bar>b\<bar>"
  define h where "h = minHalfUlp"
  have h: "0 \<le> h" unfolding h_def by (rule minHalfUlp_nonneg)
  have N: "0 \<le> N" by (simp add: N_def)
  have "\<bar>cosQ * a + p * b\<bar> \<le> 3 / 4 * \<bar>a\<bar> + 3 / 4 * \<bar>b\<bar>"
    using prod_bound [OF cosQ_bound, of a] prod_bound [OF assms, of b] by (rule abs_sum_le)
  then have t: "\<bar>cosQ * a + p * b\<bar> \<le> 3 / 4 * N"
    by (simp add: N_def)
  have "\<bar>(dbl (cosQ * a) + dbl (p * b)) - (cosQ * a + p * b)\<bar>
        \<le> (3 / 4 * \<bar>a\<bar> / 2 ^ 53 + h) + (3 / 4 * \<bar>b\<bar> / 2 ^ 53 + h)"
    unfolding h_def using dbl_prod_err [OF cosQ_bound] dbl_prod_err [OF assms] by (rule sum_err)
  also have "\<dots> = 3 / 4 * N / 2 ^ 53 + 2 * h"
    by (simp add: N_def field_simps)
  finally have s: "\<bar>(dbl (cosQ * a) + dbl (p * b)) - (cosQ * a + p * b)\<bar> \<le> 3 / 4 * N / 2 ^ 53 + 2 * h" .
  have "\<bar>mix p a b - (cosQ * a + p * b)\<bar>
        \<le> (3 / 4 * N / 2 ^ 53 + 2 * h) + (3 / 4 * N + (3 / 4 * N / 2 ^ 53 + 2 * h)) / 2 ^ 53 + h"
    unfolding mix_def h_def using s [unfolded h_def] t by (rule dbl_near)
  also have "\<dots> \<le> N / 2 ^ 52 + 4 * h"
    using N h by (simp add: field_simps)
  finally show ?thesis
    by (simp only: N_def h_def)
qed


lemma abs_chain:
  fixes u v w s t :: real
  assumes "\<bar>u - v\<bar> \<le> s" and "\<bar>v - w\<bar> \<le> t"
  shows "\<bar>u - w\<bar> \<le> s + t"
  using assms by linarith

lemma abs_sum_bound:
  fixes x y xe ye E G :: real
  assumes "\<bar>x - xe\<bar> \<le> E" and "\<bar>y - ye\<bar> \<le> E" and "\<bar>xe\<bar> + \<bar>ye\<bar> \<le> G"
  shows "\<bar>x\<bar> + \<bar>y\<bar> \<le> G + 2 * E"
  using assms by linarith

lemma lin_bound:
  assumes p: "\<bar>p\<bar> \<le> 3 / 4"
  shows "\<bar>cosQ * u + p * v\<bar> \<le> 3 / 4 * (\<bar>u\<bar> + \<bar>v\<bar>)"
proof -
  have "\<bar>cosQ * u + p * v\<bar> \<le> 3 / 4 * \<bar>u\<bar> + 3 / 4 * \<bar>v\<bar>"
    using prod_bound [OF cosQ_bound, of u] prod_bound [OF p, of v] by (rule abs_sum_le)
  then show ?thesis by simp
qed

lemma mix_comp:
  assumes p: "\<bar>p\<bar> \<le> 3 / 4"
    and x: "\<bar>x - xe\<bar> \<le> E" and y: "\<bar>y - ye\<bar> \<le> E" and G: "\<bar>xe\<bar> + \<bar>ye\<bar> \<le> G"
  shows "\<bar>mix p x y - (cosQ * xe + p * ye)\<bar>
         \<le> 3 / 2 * E + (G + 2 * E) / 2 ^ 52 + 4 * minHalfUlp"
proof -
  have "\<bar>x\<bar> + \<bar>y\<bar> \<le> G + 2 * E"
    using x y G by (rule abs_sum_bound)
  then have "(\<bar>x\<bar> + \<bar>y\<bar>) / 2 ^ 52 \<le> (G + 2 * E) / 2 ^ 52"
    by (rule divide_right_mono) simp
  with mix_err [OF p, of x y]
  have m: "\<bar>mix p x y - (cosQ * x + p * y)\<bar> \<le> (G + 2 * E) / 2 ^ 52 + 4 * minHalfUlp"
    by linarith
  have "\<bar>cosQ * (x - xe) + p * (y - ye)\<bar> \<le> 3 / 4 * (\<bar>x - xe\<bar> + \<bar>y - ye\<bar>)"
    using p by (rule lin_bound)
  also have "\<dots> \<le> 3 / 4 * (E + E)"
    using x y by (intro mult_left_mono add_mono) simp_all
  finally have "\<bar>cosQ * (x - xe) + p * (y - ye)\<bar> \<le> 3 / 2 * E"
    by simp
  moreover have "cosQ * (x - xe) + p * (y - ye) = (cosQ * x + p * y) - (cosQ * xe + p * ye)"
    by (simp add: algebra_simps)
  ultimately have d: "\<bar>(cosQ * x + p * y) - (cosQ * xe + p * ye)\<bar> \<le> 3 / 2 * E"
    by simp
  have "\<bar>mix p x y - (cosQ * xe + p * ye)\<bar>
        \<le> ((G + 2 * E) / 2 ^ 52 + 4 * minHalfUlp) + 3 / 2 * E"
    using m d by (rule abs_chain)
  then show ?thesis by simp
qed

lemma turnPair_comp:
  assumes p: "\<bar>p\<bar> \<le> 3 / 4"
    and x: "\<bar>fst v - xe\<bar> \<le> E" and y: "\<bar>snd v - ye\<bar> \<le> E" and G: "\<bar>xe\<bar> + \<bar>ye\<bar> \<le> G"
  shows "\<bar>fst (turnPair p v) - (cosQ * xe + p * ye)\<bar>
         \<le> 3 / 2 * E + (G + 2 * E) / 2 ^ 52 + 4 * minHalfUlp"
    and "\<bar>snd (turnPair p v) - (cosQ * ye - p * xe)\<bar>
         \<le> 3 / 2 * E + (G + 2 * E) / 2 ^ 52 + 4 * minHalfUlp"
    and "\<bar>cosQ * xe + p * ye\<bar> + \<bar>cosQ * ye - p * xe\<bar> \<le> 3 / 2 * G"
proof -
  have p': "\<bar>- p\<bar> \<le> 3 / 4" using p by simp
  have G': "\<bar>ye\<bar> + \<bar>xe\<bar> \<le> G" using G by simp
  show "\<bar>fst (turnPair p v) - (cosQ * xe + p * ye)\<bar>
         \<le> 3 / 2 * E + (G + 2 * E) / 2 ^ 52 + 4 * minHalfUlp"
    unfolding turnPair_def fst_conv using p x y G by (rule mix_comp)
  have "\<bar>mix (- p) (snd v) (fst v) - (cosQ * ye + - p * xe)\<bar>
         \<le> 3 / 2 * E + (G + 2 * E) / 2 ^ 52 + 4 * minHalfUlp"
    using p' y x G' by (rule mix_comp)
  then show "\<bar>snd (turnPair p v) - (cosQ * ye - p * xe)\<bar>
         \<le> 3 / 2 * E + (G + 2 * E) / 2 ^ 52 + 4 * minHalfUlp"
    by (simp add: turnPair_def)
  have "\<bar>cosQ * xe + p * ye\<bar> \<le> 3 / 4 * (\<bar>xe\<bar> + \<bar>ye\<bar>)"
    using p by (rule lin_bound)
  moreover have "\<bar>cosQ * ye + - p * xe\<bar> \<le> 3 / 4 * (\<bar>ye\<bar> + \<bar>xe\<bar>)"
    using p' by (rule lin_bound)
  ultimately show "\<bar>cosQ * xe + p * ye\<bar> + \<bar>cosQ * ye - p * xe\<bar> \<le> 3 / 2 * G"
    using G by simp
qed


lemma scale_err:
  fixes k e a N :: real
  assumes "\<bar>k - 1\<bar> \<le> e" and "\<bar>a\<bar> \<le> N"
  shows "\<bar>k * a - a\<bar> \<le> e * N"
proof -
  have "\<bar>k * a - a\<bar> = \<bar>k - 1\<bar> * \<bar>a\<bar>"
    by (simp add: abs_mult [symmetric] algebra_simps)
  also have "\<dots> \<le> e * N"
    using assms by (intro mult_mono) simp_all
  finally show ?thesis .
qed

lemma quarter_norm:
  assumes "p = sinQ \<or> p = - sinQ"
  shows "\<bar>(cosQ * cosQ + p * p) - 1\<bar> \<le> 1 / 2 ^ 53"
proof -
  have "p * p = sinQ * sinQ" using assms by auto
  moreover have "\<bar>(cosQ * cosQ + sinQ * sinQ) - 1\<bar> \<le> 1 / 2 ^ 53"
    by (simp add: cosQ_def sinQ_def)
  ultimately show ?thesis by simp
qed

lemma turnPair_inverse:
  assumes "p = sinQ \<or> p = - sinQ"
  shows "\<bar>fst (turnPair (- p) (turnPair p v)) - fst v\<bar>
         \<le> (\<bar>fst v\<bar> + \<bar>snd v\<bar>) / 2 ^ 50 + 16 * minHalfUlp"
    and "\<bar>snd (turnPair (- p) (turnPair p v)) - snd v\<bar>
         \<le> (\<bar>fst v\<bar> + \<bar>snd v\<bar>) / 2 ^ 50 + 16 * minHalfUlp"
proof -
  define a b where "a = fst v" and "b = snd v"
  define N where "N = \<bar>a\<bar> + \<bar>b\<bar>"
  define h where "h = minHalfUlp"
  let ?E1 = "3 / 2 * 0 + (N + 2 * 0) / 2 ^ 52 + 4 * h"
  let ?E2 = "3 / 2 * ?E1 + (3 / 2 * N + 2 * ?E1) / 2 ^ 52 + 4 * h"
  define X1 Y1 where "X1 = cosQ * a + p * b" and "Y1 = cosQ * b - p * a"
  have h: "0 \<le> h" unfolding h_def by (rule minHalfUlp_nonneg)
  have N: "0 \<le> N" by (simp add: N_def)
  have pb: "\<bar>p\<bar> \<le> 3 / 4" and pb': "\<bar>- p\<bar> \<le> 3 / 4"
    using assms sinQ_bound by auto
  have x0: "\<bar>fst v - a\<bar> \<le> 0" and y0: "\<bar>snd v - b\<bar> \<le> 0" and G0: "\<bar>a\<bar> + \<bar>b\<bar> \<le> N"
    by (simp_all add: a_def b_def N_def)
  note s1 = turnPair_comp [OF pb x0 y0 G0, folded h_def X1_def Y1_def]
  note s2 = turnPair_comp [OF pb' s1, folded h_def]
  have ex: "cosQ * X1 + - p * Y1 = (cosQ * cosQ + p * p) * a"
    and ey: "cosQ * Y1 - - p * X1 = (cosQ * cosQ + p * p) * b"
    by (simp_all add: X1_def Y1_def algebra_simps)
  have an: "\<bar>a\<bar> \<le> N" and bn: "\<bar>b\<bar> \<le> N"
    by (simp_all add: N_def)
  have fin: "?E2 + 1 / 2 ^ 53 * N \<le> N / 2 ^ 50 + 16 * h"
    using N h by (simp add: field_simps)
  have "\<bar>fst (turnPair (- p) (turnPair p v)) - a\<bar> \<le> ?E2 + 1 / 2 ^ 53 * N"
    using s2(1) [unfolded ex] scale_err [OF quarter_norm [OF assms] an] by (rule abs_chain)
  with fin show "\<bar>fst (turnPair (- p) (turnPair p v)) - fst v\<bar>
         \<le> (\<bar>fst v\<bar> + \<bar>snd v\<bar>) / 2 ^ 50 + 16 * minHalfUlp"
    unfolding N_def h_def a_def b_def by linarith
  have "\<bar>snd (turnPair (- p) (turnPair p v)) - b\<bar> \<le> ?E2 + 1 / 2 ^ 53 * N"
    using s2(2) [unfolded ey] scale_err [OF quarter_norm [OF assms] bn] by (rule abs_chain)
  with fin show "\<bar>snd (turnPair (- p) (turnPair p v)) - snd v\<bar>
         \<le> (\<bar>fst v\<bar> + \<bar>snd v\<bar>) / 2 ^ 50 + 16 * minHalfUlp"
    unfolding N_def h_def a_def b_def by linarith
qed


lemma quarter_fourth:
  assumes "p = sinQ \<or> p = - sinQ"
  shows "\<bar>(cosQ * cosQ - p * p) * (cosQ * cosQ - p * p) - 4 * (cosQ * cosQ) * (p * p) + 1\<bar>
           \<le> 1 / 2 ^ 53"
    and "\<bar>4 * cosQ * p * (cosQ * cosQ - p * p)\<bar> \<le> 3 / 2 ^ 53"
proof -
  have pp: "p * p = sinQ * sinQ" using assms by auto
  have "\<bar>(cosQ * cosQ - sinQ * sinQ) * (cosQ * cosQ - sinQ * sinQ)
          - 4 * (cosQ * cosQ) * (sinQ * sinQ) + 1\<bar> \<le> 1 / 2 ^ 53"
    by (simp add: cosQ_def sinQ_def)
  then show "\<bar>(cosQ * cosQ - p * p) * (cosQ * cosQ - p * p) - 4 * (cosQ * cosQ) * (p * p) + 1\<bar>
           \<le> 1 / 2 ^ 53"
    by (simp only: pp)
  have "\<bar>4 * cosQ * sinQ * (cosQ * cosQ - sinQ * sinQ)\<bar> \<le> 3 / 2 ^ 53"
    by (simp add: cosQ_def sinQ_def)
  moreover have "\<bar>4 * cosQ * p * (cosQ * cosQ - p * p)\<bar>
                 = \<bar>4 * cosQ * sinQ * (cosQ * cosQ - sinQ * sinQ)\<bar>"
    using assms by (auto simp: pp)
  ultimately show "\<bar>4 * cosQ * p * (cosQ * cosQ - p * p)\<bar> \<le> 3 / 2 ^ 53"
    by simp
qed

lemma lin_err:
  fixes k l a b e f :: real
  assumes "\<bar>k\<bar> \<le> e" and "\<bar>l\<bar> \<le> f" and "e \<le> f"
  shows "\<bar>k * a + l * b\<bar> \<le> f * (\<bar>a\<bar> + \<bar>b\<bar>)"
proof -
  have "\<bar>k * a\<bar> \<le> f * \<bar>a\<bar>"
    unfolding abs_mult using assms by (intro mult_right_mono) simp_all
  moreover have "\<bar>l * b\<bar> \<le> f * \<bar>b\<bar>"
    unfolding abs_mult using assms by (intro mult_right_mono) simp_all
  ultimately have "\<bar>k * a + l * b\<bar> \<le> f * \<bar>a\<bar> + f * \<bar>b\<bar>"
    by (rule abs_sum_le)
  then show ?thesis by (simp add: algebra_simps)
qed

lemma turnPair_four:
  assumes "p = sinQ \<or> p = - sinQ"
  shows "\<bar>fst (turnPair p (turnPair p (turnPair p (turnPair p v)))) - (- fst v)\<bar>
         \<le> (\<bar>fst v\<bar> + \<bar>snd v\<bar>) / 2 ^ 47 + 64 * minHalfUlp"
    and "\<bar>snd (turnPair p (turnPair p (turnPair p (turnPair p v)))) - (- snd v)\<bar>
         \<le> (\<bar>fst v\<bar> + \<bar>snd v\<bar>) / 2 ^ 47 + 64 * minHalfUlp"
proof -
  define a b where "a = fst v" and "b = snd v"
  define N where "N = \<bar>a\<bar> + \<bar>b\<bar>"
  define h where "h = minHalfUlp"
  let ?E1 = "3 / 2 * 0 + (N + 2 * 0) / 2 ^ 52 + 4 * h"
  let ?E2 = "3 / 2 * ?E1 + (3 / 2 * N + 2 * ?E1) / 2 ^ 52 + 4 * h"
  let ?E3 = "3 / 2 * ?E2 + (3 / 2 * (3 / 2 * N) + 2 * ?E2) / 2 ^ 52 + 4 * h"
  let ?E4 = "3 / 2 * ?E3 + (3 / 2 * (3 / 2 * (3 / 2 * N)) + 2 * ?E3) / 2 ^ 52 + 4 * h"
  define X1 Y1 where "X1 = cosQ * a + p * b" and "Y1 = cosQ * b - p * a"
  define X2 Y2 where "X2 = cosQ * X1 + p * Y1" and "Y2 = cosQ * Y1 - p * X1"
  define X3 Y3 where "X3 = cosQ * X2 + p * Y2" and "Y3 = cosQ * Y2 - p * X2"
  define k l where "k = (cosQ * cosQ - p * p) * (cosQ * cosQ - p * p) - 4 * (cosQ * cosQ) * (p * p) + 1"
    and "l = 4 * cosQ * p * (cosQ * cosQ - p * p)"
  have h: "0 \<le> h" unfolding h_def by (rule minHalfUlp_nonneg)
  have N: "0 \<le> N" by (simp add: N_def)
  have pb: "\<bar>p\<bar> \<le> 3 / 4"
    using assms sinQ_bound by auto
  have x0: "\<bar>fst v - a\<bar> \<le> 0" and y0: "\<bar>snd v - b\<bar> \<le> 0" and G0: "\<bar>a\<bar> + \<bar>b\<bar> \<le> N"
    by (simp_all add: a_def b_def N_def)
  note s1 = turnPair_comp [OF pb x0 y0 G0, folded h_def X1_def Y1_def]
  note s2 = turnPair_comp [OF pb s1, folded h_def X2_def Y2_def]
  note s3 = turnPair_comp [OF pb s2, folded h_def X3_def Y3_def]
  note s4 = turnPair_comp [OF pb s3, folded h_def]
  have ex: "cosQ * X3 + p * Y3 = - a + (k * a + l * b)"
    and ey: "cosQ * Y3 - p * X3 = - b + (k * b + (- l) * a)"
    by (simp_all add: X3_def Y3_def X2_def Y2_def X1_def Y1_def k_def l_def algebra_simps)
  have kb: "\<bar>k\<bar> \<le> 1 / 2 ^ 53" and lb: "\<bar>l\<bar> \<le> 3 / 2 ^ 53" and lb': "\<bar>- l\<bar> \<le> 3 / 2 ^ 53"
    using quarter_fourth [OF assms] by (simp_all add: k_def l_def)
  have le: "(1::real) / 2 ^ 53 \<le> 3 / 2 ^ 53" by simp
  have dx: "\<bar>(- a + (k * a + l * b)) - (- a)\<bar> \<le> 3 / 2 ^ 53 * N"
    using lin_err [OF kb lb le, of a b] by (simp add: N_def)
  have dy: "\<bar>(- b + (k * b + (- l) * a)) - (- b)\<bar> \<le> 3 / 2 ^ 53 * N"
    using lin_err [OF kb lb' le, of b a] by (simp add: N_def add.commute)
  have fin: "?E4 + 3 / 2 ^ 53 * N \<le> N / 2 ^ 47 + 64 * h"
    using N h by (simp add: field_simps)
  have "\<bar>fst (turnPair p (turnPair p (turnPair p (turnPair p v)))) - (- a)\<bar>
        \<le> ?E4 + 3 / 2 ^ 53 * N"
    using s4(1) [unfolded ex] dx by (rule abs_chain)
  with fin show "\<bar>fst (turnPair p (turnPair p (turnPair p (turnPair p v)))) - (- fst v)\<bar>
         \<le> (\<bar>fst v\<bar> + \<bar>snd v\<bar>) / 2 ^ 47 + 64 * minHalfUlp"
    unfolding N_def h_def a_def b_def by linarith
  have "\<bar>snd (turnPair p (turnPair p (turnPair p (turnPair p v)))) - (- b)\<bar>
        \<le> ?E4 + 3 / 2 ^ 53 * N"
    using s4(2) [unfolded ey] dy by (rule abs_chain)
  with fin show "\<bar>snd (turnPair p (turnPair p (turnPair p (turnPair p v)))) - (- snd v)\<bar>
         \<le> (\<bar>fst v\<bar> + \<bar>snd v\<bar>) / 2 ^ 47 + 64 * minHalfUlp"
    unfolding N_def h_def a_def b_def by linarith
qed

subsection \<open>Quarter turns\<close>

lemma sinQ_dy: "sinQ = dy 1592262918131443 (-51)"
  by (simp add: sinQ_def dy_real)

lemma cosQ_dy: "cosQ = dy 6369051672525773 (-53)"
  by (simp add: cosQ_def dy_real)

lemma dbl_sinQ: "dbl sinQ = sinQ" "dbl (- sinQ) = - sinQ"
  by (simp_all add: sinQ_dy dy_eval)

lemma Math_quarter:
  "Math_sin (pi / 4) = sinQ" "Math_sin (- (pi / 4)) = - sinQ"
  "Math_cos (pi / 4) = cosQ" "Math_cos (- (pi / 4)) = cosQ"
  by (simp_all add: Math_sin_def Math_cos_def sinQ_def cosQ_def)

lemma half_quarter: "pi / 2 * 1 / 2 = pi / 4" "pi / 2 * (- 1) / 2 = - (pi / 4)"
  by simp_all

lemma quarter_pos: "quarter ax 1 =
  Quaternion (if ax = X then sinQ else 0) (if ax = Y then sinQ else 0)
             (if ax = Z then sinQ else 0) cosQ"
  unfolding quarter_def setFromAxisAngle_def Let_def half_quarter Math_quarter
  by (simp add: axisVec_def dbl_sinQ)

lemma quarter_neg: "quarter ax (-1) =
  Quaternion (if ax = X then - sinQ else 0) (if ax = Y then - sinQ else 0)
             (if ax = Z then - sinQ else 0) cosQ"
  unfolding quarter_def setFromAxisAngle_def Let_def half_quarter Math_quarter
  by (simp add: axisVec_def dbl_sinQ)

lemma Math_round_unit3: "v \<in> unit3 \<Longrightarrow> Math_round v = v"
  by (auto simp: unit3_def Math_round_def)

lemma Math_round_of_int: "Math_round (of_int k) = of_int k"
  by (simp add: Math_round_def)

text \<open>
  With the doubles of a quarter turn the rotated lattice point misses its lattice
  point by less than \<open>10\<^sup>-\<^sup>1\<^sup>5\<close>; \<open>Math.round\<close> puts it there.
\<close>

lemma round_mix:
  assumes "b \<in> unit3" and "c \<in> unit3" and "d = 1 \<or> d = -1"
  shows "Math_round (b - 2 * cosQ * (d * sinQ) * c - 2 * (d * sinQ) * (d * sinQ) * b) = - d * c"
    and "Math_round (c + 2 * cosQ * (d * sinQ) * b - 2 * (d * sinQ) * (d * sinQ) * c) = d * b"
  using assms by (auto simp: unit3_def Math_round_def sinQ_def cosQ_def)

lemma rot90_onLattice:
  assumes "d = 1 \<or> d = -1" and "onLattice v"
  shows "onLattice (rot90 ax d v)"
  using assms by (cases ax) (auto simp: onLattice_def rot90_def unit3_def)

lemma rot90_inverse:
  assumes "d = 1 \<or> d = -1"
  shows "rot90 ax (- d) (rot90 ax d v) = v"
  using assms by (cases ax; cases v) (auto simp: rot90_def)

lemma isInSlice_rot90: "isInSlice (rot90 ax d v) ax sl = isInSlice v ax sl"
  by (cases ax) (simp_all add: isInSlice_def rot90_def)

lemma quarter_eq:
  assumes "d = 1 \<or> d = -1"
  shows "quarter ax d =
    Quaternion (if ax = X then d * sinQ else 0) (if ax = Y then d * sinQ else 0)
               (if ax = Z then d * sinQ else 0) cosQ"
  using assms by (auto simp: quarter_pos quarter_neg)

lemma apply_quarter_X:
  "applyQuaternion (Vector3 a b c) (Quaternion s 0 0 w)
   = Vector3 a (b - 2 * w * s * c - 2 * s * s * b) (c + 2 * w * s * b - 2 * s * s * c)"
  by (simp add: applyQuaternion_def Let_def algebra_simps)

lemma apply_quarter_Y:
  "applyQuaternion (Vector3 a b c) (Quaternion 0 s 0 w)
   = Vector3 (a + 2 * w * s * c - 2 * s * s * a) b (c - 2 * w * s * a - 2 * s * s * c)"
  by (simp add: applyQuaternion_def Let_def algebra_simps)

lemma apply_quarter_Z:
  "applyQuaternion (Vector3 a b c) (Quaternion 0 0 s w)
   = Vector3 (a - 2 * w * s * b - 2 * s * s * a) (b + 2 * w * s * a - 2 * s * s * b) c"
  by (simp add: applyQuaternion_def Let_def algebra_simps)

lemma round_quarter:
  assumes d: "d = 1 \<or> d = -1" and v: "onLattice v"
  shows "Vector3 (Math_round (vx (applyQuaternion v (quarter ax d))))
                 (Math_round (vy (applyQuaternion v (quarter ax d))))
                 (Math_round (vz (applyQuaternion v (quarter ax d)))) = rot90 ax d v"
proof -
  obtain a b c where vv: "v = Vector3 a b c" by (cases v)
  with v have u: "a \<in> unit3" "b \<in> unit3" "c \<in> unit3"
    by (simp_all add: onLattice_def)
  show ?thesis
  proof (cases ax)
    case X
    from round_mix [OF u(2) u(3) d] u(1) show ?thesis
      by (simp add: X vv quarter_eq [OF d] apply_quarter_X rot90_def Math_round_unit3)
  next
    case Y
    from round_mix [OF u(3) u(1) d] u(2) show ?thesis
      by (simp add: Y vv quarter_eq [OF d] apply_quarter_Y rot90_def Math_round_unit3)
  next
    case Z
    from round_mix [OF u(1) u(2) d] u(3) show ?thesis
      by (simp add: Z vv quarter_eq [OF d] apply_quarter_Z rot90_def Math_round_unit3)
  qed
qed

lemma turnCubie_lattice:
  assumes "d = 1 \<or> d = -1" and "onLattice (position c)"
  shows "turnCubie (quarter ax d) c =
           c\<lparr>position := rot90 ax d (position c),
             rotation := multiplyQuaternions (quarter ax d) (rotation c)\<rparr>"
  using round_quarter [OF assms, of ax]
  by (simp add: turnCubie_def Let_def premultiply_def)

subsection \<open>The lattice and the permutation a commit applies to it\<close>

lemma finite_lattice: "finite lattice"
proof -
  have "lattice \<subseteq> (\<lambda>(a, b, c). Vector3 a b c) ` (unit3 \<times> unit3 \<times> unit3)"
  proof
    fix v assume "v \<in> lattice"
    then have "onLattice v" by (simp add: lattice_def)
    then have "(vx v, vy v, vz v) \<in> unit3 \<times> unit3 \<times> unit3"
      by (simp add: onLattice_def)
    then have "(\<lambda>(a, b, c). Vector3 a b c) (vx v, vy v, vz v)
                 \<in> (\<lambda>(a, b, c). Vector3 a b c) ` (unit3 \<times> unit3 \<times> unit3)"
      by (rule imageI)
    then show "v \<in> (\<lambda>(a, b, c). Vector3 a b c) ` (unit3 \<times> unit3 \<times> unit3)"
      by simp
  qed
  moreover have "finite (unit3 \<times> unit3 \<times> unit3)"
    by (simp add: unit3_def)
  ultimately show ?thesis
    by (meson finite_imageI finite_subset)
qed

lemma slicePerm_lattice:
  assumes "direction m = 1 \<or> direction m = -1" and "p \<in> lattice"
  shows "slicePerm m p \<in> lattice"
  using assms by (simp add: slicePerm_def lattice_def rot90_onLattice)

lemma slicePerm_inj:
  assumes d: "direction m = 1 \<or> direction m = -1"
  shows "inj_on (slicePerm m) A"
proof (rule inj_onI)
  fix p q assume eq: "slicePerm m p = slicePerm m q"
  have slice_same: "isInSlice (slicePerm m r) (axis m) (slice m) = isInSlice r (axis m) (slice m)" for r
    by (simp add: slicePerm_def isInSlice_rot90)
  from eq have "isInSlice p (axis m) (slice m) = isInSlice q (axis m) (slice m)"
    by (metis slice_same)
  show "p = q"
  proof (cases "isInSlice p (axis m) (slice m)")
    case True
    with \<open>isInSlice p (axis m) (slice m) = isInSlice q (axis m) (slice m)\<close> eq
    have "rot90 (axis m) (direction m) p = rot90 (axis m) (direction m) q"
      by (simp add: slicePerm_def)
    then have "rot90 (axis m) (- direction m) (rot90 (axis m) (direction m) p)
             = rot90 (axis m) (- direction m) (rot90 (axis m) (direction m) q)"
      by simp
    then show ?thesis
      using d by (simp add: rot90_inverse)
  next
    case False
    with \<open>isInSlice p (axis m) (slice m) = isInSlice q (axis m) (slice m)\<close> eq
    show ?thesis by (simp add: slicePerm_def)
  qed
qed

lemma slicePerm_image:
  assumes d: "direction m = 1 \<or> direction m = -1"
  shows "slicePerm m ` lattice = lattice"
proof -
  have "slicePerm m ` lattice \<subseteq> lattice"
    using d by (auto simp: slicePerm_lattice)
  moreover have "card (slicePerm m ` lattice) = card lattice"
    using d by (simp add: card_image slicePerm_inj)
  ultimately show ?thesis
    by (simp add: card_subset_eq finite_lattice)
qed

lemma finishCubies_lattice:
  assumes "direction m = 1 \<or> direction m = -1"
    and "\<forall>c \<in> set cs. onLattice (position c)"
  shows "finishCubies m cs =
           map (\<lambda>c. if isInSlice (position c) (axis m) (slice m) then turned m c else c) cs"
  unfolding finishCubies_def Let_def quarter_def [symmetric]
  using assms by (intro map_cong refl) (simp add: turnCubie_lattice turned_def)

lemma position_finishCubies:
  assumes "direction m = 1 \<or> direction m = -1"
    and "\<forall>c \<in> set cs. onLattice (position c)"
  shows "map position (finishCubies m cs) = map (slicePerm m) (map position cs)"
  using assms by (simp add: finishCubies_lattice slicePerm_def turned_def)

lemma cid_finishCubies: "map cid (finishCubies m cs) = map cid cs"
  by (simp add: finishCubies_def Let_def turnCubie_def)

lemma bijLattice_onLattice: "bijLattice cs \<Longrightarrow> \<forall>c \<in> set cs. onLattice (position c)"
  by (auto simp: bijLattice_def lattice_def)

lemma bijLattice_finishCubies:
  assumes d: "direction m = 1 \<or> direction m = -1" and b: "bijLattice cs"
  shows "bijLattice (finishCubies m cs)"
proof -
  have pos: "map position (finishCubies m cs) = map (slicePerm m) (map position cs)"
    using d b by (simp add: position_finishCubies bijLattice_onLattice)
  have "distinct (map (slicePerm m) (map position cs))"
    using b d by (simp only: distinct_map bijLattice_def slicePerm_inj simp_thms)
  moreover have "set (map (slicePerm m) (map position cs)) = lattice"
    using b d by (simp only: set_map bijLattice_def slicePerm_image)
  ultimately show ?thesis
    by (simp only: bijLattice_def pos simp_thms)
qed

subsection \<open>The snapshot of ids selects the same cubies as the slice test\<close>

lemma activeIds_isInSlice:
  "activeIds m cs = map cid (filter (\<lambda>c. isInSlice (position c) (axis m) (slice m)) cs)"
  by (cases "axis m") (simp_all add: activeIds_def isInSlice_def Let_def)

lemma mem_activeIds:
  assumes "distinct (map cid cs)" and "c \<in> set cs"
  shows "cid c \<in> set (activeIds m cs) \<longleftrightarrow> isInSlice (position c) (axis m) (slice m)"
proof
  assume "cid c \<in> set (activeIds m cs)"
  then obtain c' where c': "c' \<in> set cs" "isInSlice (position c') (axis m) (slice m)" "cid c' = cid c"
    by (auto simp: activeIds_isInSlice)
  with assms have "c' = c"
    by (meson distinct_map inj_onD)
  with c' show "isInSlice (position c) (axis m) (slice m)" by simp
next
  assume "isInSlice (position c) (axis m) (slice m)"
  with assms(2) show "cid c \<in> set (activeIds m cs)"
    by (auto simp: activeIds_isInSlice)
qed

lemma commitCubies_activeIds:
  assumes "distinct (map cid cs)"
  shows "commitCubies (activeIds m cs)
           (setFromAxisAngle (axisVec (axis m)) ((pi / 2) * direction m)) cs
         = finishCubies m cs"
  unfolding commitCubies_def finishCubies_def Let_def
  using assms by (intro map_cong refl) (simp add: mem_activeIds)

subsection \<open>The initial stores\<close>

lemma tableMove_direction: "tableMove m \<Longrightarrow> direction m = 1 \<or> direction m = -1"
  by (auto simp: tableMove_def moveTable_def MOVES_def mkMove_def)

lemma tableMove_slice: "tableMove m \<Longrightarrow> slice m = 1 \<or> slice m = -1"
  by (auto simp: tableMove_def moveTable_def MOVES_def mkMove_def)

lemma position_initCubies: "map position initCubies =
   map (\<lambda>(x, y, z). Vector3 (of_int x) (of_int y) (of_int z)) latticeOrder"
  by (simp add: initCubies_def latticeOrder_eq)

lemma position_initCubies3D: "map position initCubies3D =
   map (\<lambda>(x, y, z). Vector3 (of_int x) (of_int y) (of_int z)) latticeOrder"
  by (simp add: initCubies3D_def latticeOrder_eq)

lemma latticeOrder_distinct:
  "distinct (map (\<lambda>(x, y, z). Vector3 (of_int x) (of_int y) (of_int z)) latticeOrder)"
  by (simp add: latticeOrder_eq)

lemma set_latticeOrder:
  "set latticeOrder = {(x, y, z). x \<in> {-1..1} \<and> y \<in> {-1..1} \<and> z \<in> {-1..1}}"
  by (auto simp: latticeOrder_def image_iff)

lemma unit3_of_int: "a \<in> unit3 \<longleftrightarrow> (\<exists>i \<in> {-1..1::int}. a = of_int i)"
proof
  assume "a \<in> unit3"
  then consider "a = of_int (-1)" | "a = of_int 0" | "a = of_int 1"
    by (auto simp: unit3_def)
  then show "\<exists>i \<in> {-1..1::int}. a = of_int i"
    by cases (fastforce+)
next
  assume "\<exists>i \<in> {-1..1::int}. a = of_int i"
  then obtain i :: int where "-1 \<le> i" "i \<le> 1" "a = of_int i" by auto
  moreover from this have "i = -1 \<or> i = 0 \<or> i = 1" by arith
  ultimately show "a \<in> unit3" by (auto simp: unit3_def)
qed

lemma latticeOrder_set:
  "set (map (\<lambda>(x, y, z). Vector3 (of_int x) (of_int y) (of_int z)) latticeOrder) = lattice"
proof
  show "set (map (\<lambda>(x, y, z). Vector3 (of_int x) (of_int y) (of_int z)) latticeOrder) \<subseteq> lattice"
    by (auto simp: set_latticeOrder lattice_def onLattice_def unit3_of_int)
  show "lattice \<subseteq> set (map (\<lambda>(x, y, z). Vector3 (of_int x) (of_int y) (of_int z)) latticeOrder)"
  proof
    fix v assume "v \<in> lattice"
    then obtain i j k :: int where ijk: "i \<in> {-1..1}" "j \<in> {-1..1}" "k \<in> {-1..1}"
      and v: "vx v = of_int i" "vy v = of_int j" "vz v = of_int k"
      by (auto simp: lattice_def onLattice_def unit3_of_int)
    have "(i, j, k) \<in> set latticeOrder"
      using ijk by (simp add: set_latticeOrder)
    then have "(\<lambda>(x, y, z). Vector3 (of_int x) (of_int y) (of_int z)) (i, j, k)
                 \<in> (\<lambda>(x, y, z). Vector3 (of_int x) (of_int y) (of_int z)) ` set latticeOrder"
      by (rule imageI)
    moreover have "(\<lambda>(x, y, z). Vector3 (of_int x) (of_int y) (of_int z)) (i, j, k) = v"
      using v by (cases v) simp
    ultimately show "v \<in> set (map (\<lambda>(x, y, z). Vector3 (of_int x) (of_int y) (of_int z)) latticeOrder)"
      by (simp only: set_map)
  qed
qed

lemma length_latticeOrder: "length latticeOrder = 27"
  by (simp add: latticeOrder_eq)

lemma cid_initCubies: "map cid initCubies = [0..<27]"
proof -
  have "map cid initCubies = map fst (enumerate 0 latticeOrder)"
    by (simp add: initCubies_def case_prod_beta comp_def)
  then show ?thesis
    by (simp only: map_fst_enumerate length_latticeOrder add_0)
qed

lemma cid_initCubies3D: "map cid initCubies3D = [0..<27]"
proof -
  have "map cid initCubies3D = map fst (enumerate 0 latticeOrder)"
    by (simp add: initCubies3D_def case_prod_beta comp_def)
  then show ?thesis
    by (simp only: map_fst_enumerate length_latticeOrder add_0)
qed

lemma wellStore_initCubies: "wellStore initCubies"
  unfolding wellStore_def bijLattice_def position_initCubies
  by (intro conjI latticeOrder_distinct latticeOrder_set cid_initCubies)

lemma wellStore_initCubies3D: "wellStore initCubies3D"
  unfolding wellStore_def bijLattice_def position_initCubies3D
  by (intro conjI latticeOrder_distinct latticeOrder_set cid_initCubies3D)

lemma wellStore_finishCubies:
  assumes "tableMove m" and "wellStore cs"
  shows "wellStore (finishCubies m cs)"
  using assms
  by (simp add: wellStore_def bijLattice_finishCubies tableMove_direction cid_finishCubies)

subsection \<open>The invariants hold in every reachable state\<close>

lemma wellStore_distinct_cid: "wellStore cs \<Longrightarrow> distinct (map cid cs)"
  by (simp add: wellStore_def)

lemma invScreen_startScreen:
  assumes "invScreen s"
  shows "invScreen (startScreen s)"
proof (cases "\<not> isAnimatingRef s \<and> length (moveQueue s) > 0")
  case True
  then have "moveQueue s ! 0 \<in> set (moveQueue s)" by simp
  with assms have "tableMove (moveQueue s ! 0)"
    by (simp add: invScreen_def list_all_iff)
  with assms True show ?thesis
    by (simp add: startScreen_def invScreen_def)
next
  case False
  with assms show ?thesis by (auto simp: startScreen_def)
qed

lemma invScreen_finishMove:
  assumes "invScreen s" and "tableMove move"
  shows "invScreen (finishMove move s)"
  using assms
  by (simp add: invScreen_def finishMove_def wellStore_finishCubies handleMoveComplete_def
        list_all_iff) (meson in_set_dropD)

lemma invScreen_useFrame:
  assumes "invScreen s"
  shows "invScreen (useFrame s delta)"
proof -
  let ?s = "startScreen s"
  have inv: "invScreen ?s" using assms by (rule invScreen_startScreen)
  show ?thesis
  proof (cases "isAnimatingRef ?s")
    case False
    with inv show ?thesis by (simp add: useFrame_def Let_def)
  next
    case anim: True
    show ?thesis
    proof (cases "currentMoveRef ?s")
      case None
      with inv anim show ?thesis by (simp add: useFrame_def Let_def)
    next
      case (Some move)
      with inv have tm: "tableMove move" by (simp add: invScreen_def)
      show ?thesis
      proof (cases "pivotRef ?s")
        case None
        with inv anim Some show ?thesis by (simp add: useFrame_def Let_def)
      next
        case (Some p)
        let ?s' = "?s\<lparr>progressRef := progressRef ?s
                       + delta * (if length (moveQueue ?s) > 5 then 20 else 6)\<rparr>"
        have inv': "invScreen ?s'" using inv by (simp add: invScreen_def)
        have fin: "invScreen (finishMove move ?s')"
          using inv' tm by (rule invScreen_finishMove)
        have piv: "invScreen (?s'\<lparr>pivotRef := q\<rparr>)" for q
          using inv' by (simp add: invScreen_def)
        from anim \<open>currentMoveRef ?s = Some move\<close> Some fin piv show ?thesis
          by (simp add: useFrame_def Let_def)
      qed
    qed
  qed
qed

lemma invScreen_init: "invScreen initScreen"
  by (simp add: invScreen_def initScreen_def wellStore_initCubies)

lemma reachScreen_inv: "reachScreen s \<Longrightarrow> invScreen s"
proof (induction rule: reachScreen.induct)
  case rs_init
  show ?case by (rule invScreen_init)
next
  case (rs_tick s delta)
  then show ?case by (simp add: invScreen_useFrame)
next
  case (rs_enqueue s m)
  then show ?case by (simp add: invScreen_def tableMove_def)
qed

lemma invMesh_startMesh:
  assumes "invMesh s"
  shows "invMesh (startMesh s)"
proof (cases "\<not> isAnimating s \<and> length (moveQueue s) > 0")
  case True
  then have "moveQueue s ! 0 \<in> set (moveQueue s)" by simp
  with assms have "tableMove (moveQueue s ! 0)"
    by (simp add: invMesh_def list_all_iff)
  with assms True show ?thesis
    by (simp add: startMesh_def invMesh_def Let_def)
next
  case False
  with assms show ?thesis by (auto simp: startMesh_def)
qed

lemma invMesh_useFrame3D:
  assumes "invMesh s"
  shows "invMesh (useFrame3D s delta)"
proof -
  let ?s = "startMesh s"
  have inv: "invMesh ?s" using assms by (rule invMesh_startMesh)
  show ?thesis
  proof (cases "isAnimating ?s")
    case False
    with inv show ?thesis by (simp add: useFrame3D_def Let_def)
  next
    case anim: True
    with inv obtain move where mv: "currentMove ?s = Some move" and tm: "tableMove move"
      and act: "activeCubieIds ?s = activeIds move (cubies ?s)"
      by (auto simp: invMesh_def split: option.splits)
    have ws: "wellStore (cubies ?s)" and q: "list_all tableMove (moveQueue ?s)"
      using inv by (simp_all add: invMesh_def)
    have commit: "commitCubies (activeCubieIds ?s)
                    (setFromAxisAngle (axisVec (axis move)) ((pi / 2) * direction move)) (cubies ?s)
                  = finishCubies move (cubies ?s)"
      unfolding act by (rule commitCubies_activeIds [OF wellStore_distinct_cid [OF ws]])
    have ws': "wellStore (finishCubies move (cubies ?s))"
      using tm ws by (rule wellStore_finishCubies)
    have q': "list_all tableMove (handleMoveComplete (moveQueue ?s))"
      using q by (simp add: handleMoveComplete_def list_all_iff) (meson in_set_dropD)
    from anim mv tm act ws q commit ws' q' show ?thesis
      by (simp add: useFrame3D_def Let_def invMesh_def)
  qed
qed

lemma invMesh_init: "invMesh initMesh"
  by (simp add: invMesh_def initMesh_def wellStore_initCubies3D)

lemma reachMesh_inv: "reachMesh s \<Longrightarrow> invMesh s"
proof (induction rule: reachMesh.induct)
  case rm_init
  show ?case by (rule invMesh_init)
next
  case (rm_tick s delta)
  then show ?case by (simp add: invMesh_useFrame3D)
next
  case (rm_enqueue s m)
  then show ?case by (auto simp: invMesh_def tableMove_def split: option.splits)
qed

subsection \<open>Slices of the lattice\<close>

lemma near_unit3:
  assumes "a \<in> unit3" and "sl \<in> unit3"
  shows "\<bar>a - sl\<bar> < 0.1 \<longleftrightarrow> a = sl"
  using assms by (auto simp: unit3_def)

lemma isInSlice_lattice:
  assumes "onLattice p" and "sl \<in> unit3"
  shows "isInSlice p ax sl \<longleftrightarrow> (case ax of X \<Rightarrow> vx p = sl | Y \<Rightarrow> vy p = sl | Z \<Rightarrow> vz p = sl)"
  using assms by (cases ax) (auto simp: isInSlice_def onLattice_def unit3_def)

lemma card_unit3_sq: "card (unit3 \<times> unit3) = 9"
  by (simp add: unit3_def card_cartesian_product)

lemma slice_card:
  assumes sl: "sl \<in> unit3"
  shows "card {p \<in> lattice. isInSlice p ax sl} = 9"
proof (cases ax)
  case X
  have "{p \<in> lattice. isInSlice p ax sl} = (\<lambda>(b, c). Vector3 sl b c) ` (unit3 \<times> unit3)"
  proof (intro set_eqI iffI)
    fix p assume "p \<in> {p \<in> lattice. isInSlice p ax sl}"
    then have "vx p = sl" "vy p \<in> unit3" "vz p \<in> unit3"
      using X sl by (auto simp: lattice_def isInSlice_lattice onLattice_def)
    then have "p = (\<lambda>(b, c). Vector3 sl b c) (vy p, vz p)" and "(vy p, vz p) \<in> unit3 \<times> unit3"
      by (cases p; simp)+
    then show "p \<in> (\<lambda>(b, c). Vector3 sl b c) ` (unit3 \<times> unit3)"
      by (rule image_eqI)
  next
    fix p assume "p \<in> (\<lambda>(b, c). Vector3 sl b c) ` (unit3 \<times> unit3)"
    then show "p \<in> {p \<in> lattice. isInSlice p ax sl}"
      using X sl by (auto simp: lattice_def isInSlice_lattice onLattice_def)
  qed
  moreover have "inj_on (\<lambda>(b, c). Vector3 sl b c) (unit3 \<times> unit3)"
    by (auto simp: inj_on_def)
  ultimately show ?thesis
    by (simp add: card_image card_unit3_sq)
next
  case Y
  have "{p \<in> lattice. isInSlice p ax sl} = (\<lambda>(a, c). Vector3 a sl c) ` (unit3 \<times> unit3)"
  proof (intro set_eqI iffI)
    fix p assume "p \<in> {p \<in> lattice. isInSlice p ax sl}"
    then have "vy p = sl" "vx p \<in> unit3" "vz p \<in> unit3"
      using Y sl by (auto simp: lattice_def isInSlice_lattice onLattice_def)
    then have "p = (\<lambda>(a, c). Vector3 a sl c) (vx p, vz p)" and "(vx p, vz p) \<in> unit3 \<times> unit3"
      by (cases p; simp)+
    then show "p \<in> (\<lambda>(a, c). Vector3 a sl c) ` (unit3 \<times> unit3)"
      by (rule image_eqI)
  next
    fix p assume "p \<in> (\<lambda>(a, c). Vector3 a sl c) ` (unit3 \<times> unit3)"
    then show "p \<in> {p \<in> lattice. isInSlice p ax sl}"
      using Y sl by (auto simp: lattice_def isInSlice_lattice onLattice_def)
  qed
  moreover have "inj_on (\<lambda>(a, c). Vector3 a sl c) (unit3 \<times> unit3)"
    by (auto simp: inj_on_def)
  ultimately show ?thesis
    by (simp add: card_image card_unit3_sq)
next
  case Z
  have "{p \<in> lattice. isInSlice p ax sl} = (\<lambda>(a, b). Vector3 a b sl) ` (unit3 \<times> unit3)"
  proof (intro set_eqI iffI)
    fix p assume "p \<in> {p \<in> lattice. isInSlice p ax sl}"
    then have "vz p = sl" "vx p \<in> unit3" "vy p \<in> unit3"
      using Z sl by (auto simp: lattice_def isInSlice_lattice onLattice_def)
    then have "p = (\<lambda>(a, b). Vector3 a b sl) (vx p, vy p)" and "(vx p, vy p) \<in> unit3 \<times> unit3"
      by (cases p; simp)+
    then show "p \<in> (\<lambda>(a, b). Vector3 a b sl) ` (unit3 \<times> unit3)"
      by (rule image_eqI)
  next
    fix p assume "p \<in> (\<lambda>(a, b). Vector3 a b sl) ` (unit3 \<times> unit3)"
    then show "p \<in> {p \<in> lattice. isInSlice p ax sl}"
      using Z sl by (auto simp: lattice_def isInSlice_lattice onLattice_def)
  qed
  moreover have "inj_on (\<lambda>(a, b). Vector3 a b sl) (unit3 \<times> unit3)"
    by (auto simp: inj_on_def)
  ultimately show ?thesis
    by (simp add: card_image card_unit3_sq)
qed

lemma slice_length:
  assumes b: "bijLattice cs" and sl: "sl \<in> unit3"
  shows "length (filter (\<lambda>c. isInSlice (position c) ax sl) cs) = 9"
proof -
  have "length (filter (\<lambda>c. isInSlice (position c) ax sl) cs)
        = length (filter (\<lambda>p. isInSlice p ax sl) (map position cs))"
    by (simp add: filter_map comp_def)
  also have "\<dots> = card ({p. isInSlice p ax sl} \<inter> set (map position cs))"
    using b by (simp only: distinct_length_filter bijLattice_def)
  also have "{p. isInSlice p ax sl} \<inter> set (map position cs) = {p \<in> lattice. isInSlice p ax sl}"
    using b by (auto simp only: bijLattice_def)
  finally show ?thesis
    using sl by (simp only: slice_card)
qed

lemma slice_ids_distinct:
  assumes "wellStore cs"
  shows "distinct (map cid (filter P cs))"
  using assms by (simp add: wellStore_def distinct_map_filter)

lemma length_wellStore: "wellStore cs \<Longrightarrow> length cs = 27"
proof -
  assume "wellStore cs"
  then have "length (map cid cs) = length [0..<27::nat]" by (simp add: wellStore_def)
  then show ?thesis by simp
qed

lemma lattice_explicit:
  "lattice = {Vector3 a b c | a b c. a \<in> {-1, 0, 1} \<and> b \<in> {-1, 0, 1} \<and> c \<in> {-1, 0, 1}}"
proof (intro set_eqI iffI)
  fix v assume "v \<in> lattice"
  then have "v = Vector3 (vx v) (vy v) (vz v) \<and> vx v \<in> {-1, 0, 1} \<and> vy v \<in> {-1, 0, 1}
               \<and> vz v \<in> {-1, 0, 1}"
    by (simp add: lattice_def onLattice_def unit3_def)
  then show "v \<in> {Vector3 a b c | a b c. a \<in> {-1, 0, 1} \<and> b \<in> {-1, 0, 1} \<and> c \<in> {-1, 0, 1}}"
    by blast
next
  fix v assume "v \<in> {Vector3 a b c | a b c. a \<in> {-1, 0, 1} \<and> b \<in> {-1, 0, 1} \<and> c \<in> {-1, 0, 1}}"
  then show "v \<in> lattice"
    by (auto simp: lattice_def onLattice_def unit3_def)
qed

subsection \<open>Composing commits on the same slice\<close>

lemma finishCubies_inSliceMap:
  assumes "direction m = 1 \<or> direction m = -1"
    and "\<forall>c \<in> set cs. onLattice (position c)"
  shows "finishCubies m cs = inSliceMap m (turned m) cs"
  using assms by (simp add: finishCubies_lattice inSliceMap_def)

lemma inSliceMap_id: "inSliceMap m (\<lambda>c. c) cs = cs"
  by (simp add: inSliceMap_def)

lemma turned_onLattice:
  assumes "direction m = 1 \<or> direction m = -1" and "onLattice (position c)"
  shows "onLattice (position (turned m c))"
  using assms by (simp add: turned_def rot90_onLattice)

lemma turned_isInSlice:
  "isInSlice (position (turned m c)) (axis m) (slice m) = isInSlice (position c) (axis m) (slice m)"
  by (simp add: turned_def isInSlice_rot90)

lemma finishCubies_compose:
  assumes d: "direction m' = 1 \<or> direction m' = -1"
    and same: "axis m' = axis m" "slice m' = slice m"
    and lat: "\<forall>c \<in> set cs. onLattice (position c)"
    and flat: "\<And>c. onLattice (position c) \<Longrightarrow> onLattice (position (f c))"
    and fslice: "\<And>c. isInSlice (position (f c)) (axis m) (slice m)
                       = isInSlice (position c) (axis m) (slice m)"
  shows "finishCubies m' (inSliceMap m f cs) = inSliceMap m (\<lambda>c. turned m' (f c)) cs"
proof -
  have "\<forall>c \<in> set (inSliceMap m f cs). onLattice (position c)"
    using lat flat by (auto simp: inSliceMap_def)
  with d have "finishCubies m' (inSliceMap m f cs) = inSliceMap m' (turned m') (inSliceMap m f cs)"
    by (rule finishCubies_inSliceMap)
  also have "\<dots> = inSliceMap m (\<lambda>c. turned m' (f c)) cs"
    unfolding inSliceMap_def map_map comp_def same
    by (intro map_cong refl) (simp add: fslice)
  finally show ?thesis .
qed

lemma turned_inverse:
  assumes d: "direction m = 1 \<or> direction m = -1"
    and same: "axis m' = axis m" "direction m' = - direction m"
  shows "turned m' (turned m c) =
           c\<lparr>rotation := multiplyQuaternions (quarter (axis m) (- direction m))
                          (multiplyQuaternions (quarter (axis m) (direction m)) (rotation c))\<rparr>"
  using d by (simp add: turned_def same rot90_inverse)

lemma rot90_four:
  assumes "d = 1 \<or> d = -1"
  shows "rot90 ax d (rot90 ax d (rot90 ax d (rot90 ax d v))) = v"
  using assms by (cases v; cases ax) (auto simp: rot90_def)

lemma turned_four:
  assumes d: "direction m = 1 \<or> direction m = -1"
  shows "turned m (turned m (turned m (turned m c))) =
           c\<lparr>rotation := multiplyQuaternions (quarter (axis m) (direction m))
                          (multiplyQuaternions (quarter (axis m) (direction m))
                            (multiplyQuaternions (quarter (axis m) (direction m))
                              (multiplyQuaternions (quarter (axis m) (direction m)) (rotation c))))\<rparr>"
  using d by (simp add: turned_def rot90_four)

lemma finishCubies_inverse:
  assumes d: "direction m = 1 \<or> direction m = -1"
    and same: "axis m' = axis m" "slice m' = slice m" "direction m' = - direction m"
    and lat: "\<forall>c \<in> set cs. onLattice (position c)"
  shows "finishCubies m' (finishCubies m cs) =
           inSliceMap m
             (\<lambda>c. c\<lparr>rotation := multiplyQuaternions (quarter (axis m) (- direction m))
                          (multiplyQuaternions (quarter (axis m) (direction m)) (rotation c))\<rparr>) cs"
proof -
  have d': "direction m' = 1 \<or> direction m' = -1"
    using d same(3) by auto
  have "finishCubies m' (finishCubies m cs) = finishCubies m' (inSliceMap m (turned m) cs)"
    using d lat by (simp only: finishCubies_inSliceMap)
  also have "\<dots> = inSliceMap m (\<lambda>c. turned m' (turned m c)) cs"
    using d' same(1,2) lat turned_onLattice [OF d] turned_isInSlice
    by (rule finishCubies_compose)
  finally show ?thesis
    using d same by (simp only: turned_inverse)
qed

lemma finishCubies_four:
  assumes d: "direction m = 1 \<or> direction m = -1"
    and lat: "\<forall>c \<in> set cs. onLattice (position c)"
  shows "finishCubies m (finishCubies m (finishCubies m (finishCubies m cs)))
         = inSliceMap m
             (\<lambda>c. c\<lparr>rotation := multiplyQuaternions (quarter (axis m) (direction m))
                          (multiplyQuaternions (quarter (axis m) (direction m))
                            (multiplyQuaternions (quarter (axis m) (direction m))
                              (multiplyQuaternions (quarter (axis m) (direction m)) (rotation c))))\<rparr>) cs"
proof -
  have t1: "onLattice (position c) \<Longrightarrow> onLattice (position (turned m c))" for c
    using d by (rule turned_onLattice)
  have s1: "isInSlice (position (turned m c)) (axis m) (slice m)
            = isInSlice (position c) (axis m) (slice m)" for c
    by (rule turned_isInSlice)
  have one: "finishCubies m cs = inSliceMap m (turned m) cs"
    using d lat by (rule finishCubies_inSliceMap)
  have two: "finishCubies m (inSliceMap m (turned m) cs)
             = inSliceMap m (\<lambda>c. turned m (turned m c)) cs"
    using d refl refl lat t1 s1 by (rule finishCubies_compose)
  have three: "finishCubies m (inSliceMap m (\<lambda>c. turned m (turned m c)) cs)
             = inSliceMap m (\<lambda>c. turned m (turned m (turned m c))) cs"
    using d refl refl lat by (rule finishCubies_compose) (simp_all add: t1 s1)
  have four: "finishCubies m (inSliceMap m (\<lambda>c. turned m (turned m (turned m c))) cs)
             = inSliceMap m (\<lambda>c. turned m (turned m (turned m (turned m c)))) cs"
    using d refl refl lat by (rule finishCubies_compose) (simp_all add: t1 s1)
  show ?thesis
    using d by (simp only: one two three four turned_four)
qed

lemma wellStore_onLattice: "wellStore cs \<Longrightarrow> \<forall>c \<in> set cs. onLattice (position c)"
  using bijLattice_onLattice by (auto simp: wellStore_def)

subsection \<open>Products of quarter-turn quaternions, in doubles\<close>

lemma quarter_dy:
  "quarter X 1 = Quaternion (dy 1592262918131443 (-51)) 0 0 (dy 6369051672525773 (-53))"
  "quarter Y 1 = Quaternion 0 (dy 1592262918131443 (-51)) 0 (dy 6369051672525773 (-53))"
  "quarter Y (-1) = Quaternion 0 (dy (-1592262918131443) (-51)) 0 (dy 6369051672525773 (-53))"
  by (simp_all add: quarter_pos quarter_neg sinQ_dy cosQ_dy dy_uminus)

lemma trace_U:
  "multiplyQuaternions (quarter Y (-1)) newQuaternion
   = Quaternion 0 (dy (-1592262918131443) (-51)) 0 (dy 6369051672525773 (-53))"
  by (simp add: quarter_dy newQuaternion_def multiplyQuaternions_def dy_eval; simp add: dy_real)

lemma trace_UL:
  "multiplyQuaternions (quarter X 1)
     (Quaternion 0 (dy (-1592262918131443) (-51)) 0 (dy 6369051672525773 (-53)))
   = Quaternion (dy 1 (-1)) (dy (-1) (-1)) (dy (-4503599627370495) (-53))
       (dy 4503599627370497 (-53))"
  by (simp add: quarter_dy multiplyQuaternions_def dy_eval; simp add: dy_real)

lemma trace_ULU':
  "multiplyQuaternions (quarter Y 1)
     (Quaternion (dy 1 (-1)) (dy (-1) (-1)) (dy (-4503599627370495) (-53))
       (dy 4503599627370497 (-53)))
   = Quaternion (dy 1 (-53)) 0 (dy (-1592262918131443) (-51)) (dy 6369051672525773 (-53))"
  by (simp add: quarter_dy multiplyQuaternions_def dy_eval; simp add: dy_real)

lemma trace_ULU'U:
  "multiplyQuaternions (quarter Y (-1))
     (Quaternion (dy 1 (-53)) 0 (dy (-1592262918131443) (-51)) (dy 6369051672525773 (-53)))
   = Quaternion (dy 9007199254740991 (-54)) (dy (-1) (-1)) (dy (-9007199254740991) (-54))
       (dy 4503599627370497 (-53))"
  by (simp add: quarter_dy multiplyQuaternions_def dy_eval; simp add: dy_real)

lemma trace_UU:
  "multiplyQuaternions (quarter Y (-1))
     (Quaternion 0 (dy (-1592262918131443) (-51)) 0 (dy 6369051672525773 (-53)))
   = Quaternion 0 (dy (-1) 0) 0 (dy 1 (-52))"
  by (simp add: quarter_dy multiplyQuaternions_def dy_eval; simp add: dy_real)

lemma trace_UUU:
  "multiplyQuaternions (quarter Y (-1)) (Quaternion 0 (dy (-1) 0) 0 (dy 1 (-52)))
   = Quaternion 0 (dy (-3184525836262887) (-52)) 0 (dy (-6369051672525771) (-53))"
  by (simp add: quarter_dy multiplyQuaternions_def dy_eval; simp add: dy_real)

lemma trace_UUUU:
  "multiplyQuaternions (quarter Y (-1))
     (Quaternion 0 (dy (-3184525836262887) (-52)) 0 (dy (-6369051672525771) (-53)))
   = Quaternion 0 (dy (-5) (-54)) 0 (dy (-1) 0)"
  by (simp add: quarter_dy multiplyQuaternions_def dy_eval; simp add: dy_real)

lemma MOVES_tableMove: "(k, m) \<in> set MOVES \<Longrightarrow> tableMove m"
  by (force simp: tableMove_def moveTable_def)

lemma reachScreen_onLattice: "reachScreen s \<Longrightarrow> \<forall>c \<in> set (cubies s). onLattice (position c)"
  using reachScreen_inv wellStore_onLattice by (auto simp: invScreen_def)

lemma moveTable_inverses:
  "list_all (\<lambda>m. list_ex (\<lambda>m'. axis m' = axis m \<and> slice m' = slice m
                                  \<and> direction m' = - direction m) moveTable) moveTable"
  by (simp add: moveTable_def MOVES_def mkMove_def)

lemma MOVES_inverse_exists:
  assumes "(k, m) \<in> set MOVES"
  shows "\<exists>(k', m') \<in> set MOVES.
           axis m' = axis m \<and> slice m' = slice m \<and> direction m' = - direction m"
proof -
  from assms have "m \<in> set moveTable"
    by (force simp: moveTable_def)
  with moveTable_inverses obtain m' where "m' \<in> set moveTable"
    and m': "axis m' = axis m \<and> slice m' = slice m \<and> direction m' = - direction m"
    by (auto simp: list_all_iff list_ex_iff)
  then obtain k' where "(k', m') \<in> set MOVES"
    by (auto simp: moveTable_def)
  with m' show ?thesis by blast
qed

lemma initCubies_6: "initCubies ! 6 =
   \<lparr>cid = 6, position = Vector3 (-1) 1 (-1), rotation = newQuaternion, cname = ''-1,1,-1''\<rparr>"
  by (simp add: initCubies_def latticeOrder_eq show_int_def)

subsection \<open>A product with a quarter-turn quaternion, pair by pair\<close>

lemma mult_quarter_X:
  "multiplyQuaternions (Quaternion p 0 0 cosQ) r
   = Quaternion (fst (turnPair p (qx r, qw r))) (snd (turnPair p (qz r, qy r)))
                (fst (turnPair p (qz r, qy r))) (snd (turnPair p (qx r, qw r)))"
  by (simp add: multiplyQuaternions_def turnPair_def mix_def dbl_minus ac_simps)

lemma mult_quarter_Y:
  "multiplyQuaternions (Quaternion 0 p 0 cosQ) r
   = Quaternion (fst (turnPair p (qx r, qz r))) (fst (turnPair p (qy r, qw r)))
                (snd (turnPair p (qx r, qz r))) (snd (turnPair p (qy r, qw r)))"
  by (simp add: multiplyQuaternions_def turnPair_def mix_def dbl_minus ac_simps)

lemma mult_quarter_Z:
  "multiplyQuaternions (Quaternion 0 0 p cosQ) r
   = Quaternion (snd (turnPair p (qy r, qx r))) (fst (turnPair p (qy r, qx r)))
                (fst (turnPair p (qz r, qw r))) (snd (turnPair p (qz r, qw r)))"
  by (simp add: multiplyQuaternions_def turnPair_def mix_def dbl_minus ac_simps)

lemma quarter_cases:
  assumes "d = 1 \<or> d = -1"
  obtains p where "p = sinQ \<or> p = - sinQ"
    and "quarter ax d = Quaternion (if ax = X then p else 0) (if ax = Y then p else 0)
                                   (if ax = Z then p else 0) cosQ"
    and "quarter ax (- d) = Quaternion (if ax = X then - p else 0) (if ax = Y then - p else 0)
                                       (if ax = Z then - p else 0) cosQ"
proof (cases "d = 1")
  case True
  show ?thesis
    by (rule that [of sinQ]) (simp_all add: True quarter_pos quarter_neg)
next
  case False
  with assms have d: "d = -1" by simp
  show ?thesis
    by (rule that [of "- sinQ"]) (simp_all add: d quarter_pos quarter_neg)
qed

lemma pair_le_qnorm1:
  "\<bar>qx r\<bar> + \<bar>qw r\<bar> \<le> qnorm1 r" "\<bar>qz r\<bar> + \<bar>qy r\<bar> \<le> qnorm1 r"
  "\<bar>qx r\<bar> + \<bar>qz r\<bar> \<le> qnorm1 r" "\<bar>qy r\<bar> + \<bar>qw r\<bar> \<le> qnorm1 r"
  "\<bar>qy r\<bar> + \<bar>qx r\<bar> \<le> qnorm1 r" "\<bar>qz r\<bar> + \<bar>qw r\<bar> \<le> qnorm1 r"
  by (simp_all add: qnorm1_def)

lemma near_qnorm1:
  fixes t a n s h :: real
  assumes "\<bar>t - a\<bar> \<le> s / 2 ^ k + h" and "s \<le> n"
  shows "\<bar>t - a\<bar> \<le> n / 2 ^ k + h"
proof -
  have "s / 2 ^ k \<le> n / 2 ^ k"
    using assms(2) by (rule divide_right_mono) simp
  with assms(1) show ?thesis by linarith
qed

lemma qdist_le:
  assumes "\<bar>qx a - qx b\<bar> \<le> B" and "\<bar>qy a - qy b\<bar> \<le> B"
    and "\<bar>qz a - qz b\<bar> \<le> B" and "\<bar>qw a - qw b\<bar> \<le> B"
  shows "qdist a b \<le> B"
  using assms by (simp add: qdist_def)

lemma turnPair_inverse_q:
  assumes "p = sinQ \<or> p = - sinQ" and "\<bar>a\<bar> + \<bar>b\<bar> \<le> n"
  shows "\<bar>fst (turnPair (- p) (turnPair p (a, b))) - a\<bar> \<le> n / 2 ^ 50 + 16 * minHalfUlp"
    and "\<bar>snd (turnPair (- p) (turnPair p (a, b))) - b\<bar> \<le> n / 2 ^ 50 + 16 * minHalfUlp"
proof -
  have n: "\<bar>fst (a, b)\<bar> + \<bar>snd (a, b)\<bar> \<le> n"
    using assms(2) by simp
  show "\<bar>fst (turnPair (- p) (turnPair p (a, b))) - a\<bar> \<le> n / 2 ^ 50 + 16 * minHalfUlp"
    using near_qnorm1 [OF turnPair_inverse(1) [OF assms(1)] n] by simp
  show "\<bar>snd (turnPair (- p) (turnPair p (a, b))) - b\<bar> \<le> n / 2 ^ 50 + 16 * minHalfUlp"
    using near_qnorm1 [OF turnPair_inverse(2) [OF assms(1)] n] by simp
qed

lemma turnPair_four_q:
  assumes "p = sinQ \<or> p = - sinQ" and "\<bar>a\<bar> + \<bar>b\<bar> \<le> n"
  shows "\<bar>fst (turnPair p (turnPair p (turnPair p (turnPair p (a, b))))) - (- a)\<bar>
         \<le> n / 2 ^ 47 + 64 * minHalfUlp"
    and "\<bar>snd (turnPair p (turnPair p (turnPair p (turnPair p (a, b))))) - (- b)\<bar>
         \<le> n / 2 ^ 47 + 64 * minHalfUlp"
proof -
  have n: "\<bar>fst (a, b)\<bar> + \<bar>snd (a, b)\<bar> \<le> n"
    using assms(2) by simp
  show "\<bar>fst (turnPair p (turnPair p (turnPair p (turnPair p (a, b))))) - (- a)\<bar>
         \<le> n / 2 ^ 47 + 64 * minHalfUlp"
    using near_qnorm1 [OF turnPair_four(1) [OF assms(1)] n] by simp
  show "\<bar>snd (turnPair p (turnPair p (turnPair p (turnPair p (a, b))))) - (- b)\<bar>
         \<le> n / 2 ^ 47 + 64 * minHalfUlp"
    using near_qnorm1 [OF turnPair_four(2) [OF assms(1)] n] by simp
qed

text \<open>
  A quarter turn followed by the opposite quarter turn gives every component of the
  rotation back to within \<open>2\<^sup>-\<^sup>5\<^sup>0\<close> of the size of the rotation.
\<close>

lemma inverse_near:
  assumes "d = 1 \<or> d = -1"
  shows "qdist (multiplyQuaternions (quarter ax (- d)) (multiplyQuaternions (quarter ax d) r)) r
         \<le> qnorm1 r / 2 ^ 50 + 16 * minHalfUlp"
proof -
  from assms obtain p where p: "p = sinQ \<or> p = - sinQ"
    and q: "quarter ax d = Quaternion (if ax = X then p else 0) (if ax = Y then p else 0)
                                      (if ax = Z then p else 0) cosQ"
    and q': "quarter ax (- d) = Quaternion (if ax = X then - p else 0) (if ax = Y then - p else 0)
                                           (if ax = Z then - p else 0) cosQ"
    by (rule quarter_cases)
  show ?thesis
  proof (cases ax)
    case X
    have "multiplyQuaternions (quarter ax (- d)) (multiplyQuaternions (quarter ax d) r)
          = Quaternion (fst (turnPair (- p) (turnPair p (qx r, qw r))))
                       (snd (turnPair (- p) (turnPair p (qz r, qy r))))
                       (fst (turnPair (- p) (turnPair p (qz r, qy r))))
                       (snd (turnPair (- p) (turnPair p (qx r, qw r))))"
      by (simp add: X q [unfolded X] q' [unfolded X] mult_quarter_X)
    then show ?thesis
      by (simp only:)
         (intro qdist_le; simp only: Quaternion.sel; intro turnPair_inverse_q [OF p] pair_le_qnorm1)
  next
    case Y
    have "multiplyQuaternions (quarter ax (- d)) (multiplyQuaternions (quarter ax d) r)
          = Quaternion (fst (turnPair (- p) (turnPair p (qx r, qz r))))
                       (fst (turnPair (- p) (turnPair p (qy r, qw r))))
                       (snd (turnPair (- p) (turnPair p (qx r, qz r))))
                       (snd (turnPair (- p) (turnPair p (qy r, qw r))))"
      by (simp add: Y q [unfolded Y] q' [unfolded Y] mult_quarter_Y)
    then show ?thesis
      by (simp only:)
         (intro qdist_le; simp only: Quaternion.sel; intro turnPair_inverse_q [OF p] pair_le_qnorm1)
  next
    case Z
    have "multiplyQuaternions (quarter ax (- d)) (multiplyQuaternions (quarter ax d) r)
          = Quaternion (snd (turnPair (- p) (turnPair p (qy r, qx r))))
                       (fst (turnPair (- p) (turnPair p (qy r, qx r))))
                       (fst (turnPair (- p) (turnPair p (qz r, qw r))))
                       (snd (turnPair (- p) (turnPair p (qz r, qw r))))"
      by (simp add: Z q [unfolded Z] q' [unfolded Z] mult_quarter_Z)
    then show ?thesis
      by (simp only:)
         (intro qdist_le; simp only: Quaternion.sel; intro turnPair_inverse_q [OF p] pair_le_qnorm1)
  qed
qed

text \<open>
  Four equal quarter turns give every component of the rotation back negated, to within
  \<open>2\<^sup>-\<^sup>4\<^sup>7\<close> of the size of the rotation.
\<close>

lemma four_near:
  assumes "d = 1 \<or> d = -1"
  shows "qdist (multiplyQuaternions (quarter ax d) (multiplyQuaternions (quarter ax d)
           (multiplyQuaternions (quarter ax d) (multiplyQuaternions (quarter ax d) r)))) (negQ r)
         \<le> qnorm1 r / 2 ^ 47 + 64 * minHalfUlp"
proof -
  from assms obtain p where p: "p = sinQ \<or> p = - sinQ"
    and q: "quarter ax d = Quaternion (if ax = X then p else 0) (if ax = Y then p else 0)
                                      (if ax = Z then p else 0) cosQ"
    by (rule quarter_cases)
  let ?T = "\<lambda>v. turnPair p (turnPair p (turnPair p (turnPair p v)))"
  show ?thesis
  proof (cases ax)
    case X
    have "multiplyQuaternions (quarter ax d) (multiplyQuaternions (quarter ax d)
            (multiplyQuaternions (quarter ax d) (multiplyQuaternions (quarter ax d) r)))
          = Quaternion (fst (?T (qx r, qw r))) (snd (?T (qz r, qy r)))
                       (fst (?T (qz r, qy r))) (snd (?T (qx r, qw r)))"
      by (simp add: X q [unfolded X] mult_quarter_X)
    then show ?thesis
      by (simp only: negQ_def)
         (intro qdist_le; simp only: Quaternion.sel; intro turnPair_four_q [OF p] pair_le_qnorm1)
  next
    case Y
    have "multiplyQuaternions (quarter ax d) (multiplyQuaternions (quarter ax d)
            (multiplyQuaternions (quarter ax d) (multiplyQuaternions (quarter ax d) r)))
          = Quaternion (fst (?T (qx r, qz r))) (fst (?T (qy r, qw r)))
                       (snd (?T (qx r, qz r))) (snd (?T (qy r, qw r)))"
      by (simp add: Y q [unfolded Y] mult_quarter_Y)
    then show ?thesis
      by (simp only: negQ_def)
         (intro qdist_le; simp only: Quaternion.sel; intro turnPair_four_q [OF p] pair_le_qnorm1)
  next
    case Z
    have "multiplyQuaternions (quarter ax d) (multiplyQuaternions (quarter ax d)
            (multiplyQuaternions (quarter ax d) (multiplyQuaternions (quarter ax d) r)))
          = Quaternion (snd (?T (qy r, qx r))) (fst (?T (qy r, qx r)))
                       (fst (?T (qz r, qw r))) (snd (?T (qz r, qw r)))"
      by (simp add: Z q [unfolded Z] mult_quarter_Z)
    then show ?thesis
      by (simp only: negQ_def)
         (intro qdist_le; simp only: Quaternion.sel; intro turnPair_four_q [OF p] pair_le_qnorm1)
  qed
qed

lemma applyQuaternion_negQ: "applyQuaternion v (negQ q) = applyQuaternion v q"
  by (simp add: applyQuaternion_def negQ_def Let_def algebra_simps)

lemma qdist_refl: "qdist r r = 0"
  by (simp add: qdist_def)

lemma near_bound_nonneg:
  assumes "0 \<le> c"
  shows "0 \<le> qnorm1 r / 2 ^ k + c * minHalfUlp"
  using assms minHalfUlp_nonneg by (simp add: qnorm1_def)

lemma inSliceMap_nth_rotation:
  assumes "i < length cs"
  shows "rotation (inSliceMap m (\<lambda>c. c\<lparr>rotation := f (rotation c)\<rparr>) cs ! i)
         = (if isInSlice (position (cs ! i)) (axis m) (slice m)
            then f (rotation (cs ! i)) else rotation (cs ! i))"
  using assms by (simp add: inSliceMap_def)

lemma four_turns_near:
  assumes d: "direction m = 1 \<or> direction m = -1" and i: "i < length cs"
    and s: "isInSlice (position (cs ! i)) (axis m) (slice m)"
  shows "qdist (rotation (inSliceMap m
                  (\<lambda>c. c\<lparr>rotation := multiplyQuaternions (quarter (axis m) (direction m))
                          (multiplyQuaternions (quarter (axis m) (direction m))
                            (multiplyQuaternions (quarter (axis m) (direction m))
                              (multiplyQuaternions (quarter (axis m) (direction m)) (rotation c))))\<rparr>)
                  cs ! i))
           (negQ (rotation (cs ! i)))
         \<le> qnorm1 (rotation (cs ! i)) / 2 ^ 47 + 64 * minHalfUlp"
proof -
  have "rotation (inSliceMap m
                  (\<lambda>c. c\<lparr>rotation := multiplyQuaternions (quarter (axis m) (direction m))
                          (multiplyQuaternions (quarter (axis m) (direction m))
                            (multiplyQuaternions (quarter (axis m) (direction m))
                              (multiplyQuaternions (quarter (axis m) (direction m)) (rotation c))))\<rparr>)
                  cs ! i)
        = (if isInSlice (position (cs ! i)) (axis m) (slice m)
           then multiplyQuaternions (quarter (axis m) (direction m))
                  (multiplyQuaternions (quarter (axis m) (direction m))
                    (multiplyQuaternions (quarter (axis m) (direction m))
                      (multiplyQuaternions (quarter (axis m) (direction m)) (rotation (cs ! i)))))
           else rotation (cs ! i))"
    by (rule inSliceMap_nth_rotation [OF i, where f = "\<lambda>r.
          multiplyQuaternions (quarter (axis m) (direction m))
            (multiplyQuaternions (quarter (axis m) (direction m))
              (multiplyQuaternions (quarter (axis m) (direction m))
                (multiplyQuaternions (quarter (axis m) (direction m)) r)))"])
  then show ?thesis
    using s by (simp only: if_True four_near [OF d])
qed

subsection \<open>A frame long enough to complete a move\<close>

lemma useFrame3D_complete:
  assumes inv: "invMesh t" and idle: "\<not> isAnimating t" and q: "moveQueue t = m # rest"
    and big: "pi / 2 \<le> ANIMATION_SPEED * delta"
  shows "cubies (useFrame3D t delta) = finishCubies m (cubies t)"
    and "moveQueue (useFrame3D t delta) = rest"
    and "\<not> isAnimating (useFrame3D t delta)"
    and "invMesh (useFrame3D t delta)"
proof -
  have st: "startMesh t = t\<lparr>currentMove := Some m, isAnimating := True, moveProgress := 0,
                            activeCubieIds := activeIds m (cubies t)\<rparr>"
    using idle q by (simp add: startMesh_def Let_def)
  have ws: "wellStore (cubies t)" using inv by (simp add: invMesh_def)
  have commit: "commitCubies (activeIds m (cubies t))
                  (setFromAxisAngle (axisVec (axis m)) ((pi / 2) * direction m)) (cubies t)
                = finishCubies m (cubies t)"
    by (rule commitCubies_activeIds [OF wellStore_distinct_cid [OF ws]])
  have "cubies (useFrame3D t delta)
        = commitCubies (activeIds m (cubies t))
            (setFromAxisAngle (axisVec (axis m)) ((pi / 2) * direction m)) (cubies t)"
    using big unfolding cubies_useFrame3D st by simp
  with commit show "cubies (useFrame3D t delta) = finishCubies m (cubies t)"
    by simp
  show "moveQueue (useFrame3D t delta) = rest"
    using big q unfolding useFrame3D_def st by (simp add: Let_def handleMoveComplete_def)
  show "\<not> isAnimating (useFrame3D t delta)"
    using big unfolding useFrame3D_def st by (simp add: Let_def)
  show "invMesh (useFrame3D t delta)"
    using inv by (rule invMesh_useFrame3D)
qed

lemma initCubies3D_6: "initCubies3D ! 6 =
   \<lparr>cid = 6, position = Vector3 (-1) 1 (-1), rotation = newQuaternion, cname = ''cubie-7''\<rparr>"
  by (simp add: initCubies3D_def latticeOrder_eq)

lemma length_initCubies: "length initCubies = 27"
  using length_wellStore [OF wellStore_initCubies] .

subsection \<open>Any run of frames commits the moves of the queue in order\<close>

lemma headMesh_startMesh: "headMesh s \<Longrightarrow> headMesh (startMesh s)"
  by (auto simp: headMesh_def startMesh_def Let_def)

lemma headMesh_useFrame3D:
  assumes "headMesh s"
  shows "headMesh (useFrame3D s delta)"
proof -
  have "headMesh (startMesh s)" using assms by (rule headMesh_startMesh)
  then show ?thesis
    by (auto simp: useFrame3D_def Let_def headMesh_def split: bool.splits option.splits)
qed

lemma reachMesh_head: "reachMesh s \<Longrightarrow> headMesh s"
proof (induction rule: reachMesh.induct)
  case rm_init
  show ?case by (simp add: headMesh_def initMesh_def)
next
  case (rm_tick s delta)
  then show ?case by (simp add: headMesh_useFrame3D)
next
  case (rm_enqueue s m)
  then show ?case by (auto simp: headMesh_def nth_append)
qed

lemma moveQueue_startMesh: "moveQueue (startMesh s) = moveQueue s"
  by (simp add: startMesh_def Let_def)

lemma moveQueue_useFrame3D:
  "moveQueue (useFrame3D s delta) =
     (case (isAnimating (startMesh s), currentMove (startMesh s)) of
        (True, Some move) \<Rightarrow>
          if moveProgress (startMesh s) + ANIMATION_SPEED * delta \<ge> pi / 2
          then drop 1 (moveQueue s) else moveQueue s
      | _ \<Rightarrow> moveQueue s)"
  by (auto simp add: useFrame3D_def Let_def moveQueue_startMesh handleMoveComplete_def
           split: bool.splits option.splits)

lemma useFrame3D_step:
  assumes r: "reachMesh t"
  shows "(cubies (useFrame3D t delta) = cubies t \<and> moveQueue (useFrame3D t delta) = moveQueue t)
       \<or> (moveQueue t \<noteq> []
          \<and> cubies (useFrame3D t delta) = finishCubies (moveQueue t ! 0) (cubies t)
          \<and> moveQueue (useFrame3D t delta) = drop 1 (moveQueue t))"
proof -
  let ?s = "startMesh t"
  have inv: "invMesh ?s" using r by (intro invMesh_startMesh reachMesh_inv)
  have hd: "headMesh ?s" using r by (intro headMesh_startMesh reachMesh_head)
  show ?thesis
  proof (cases "isAnimating ?s \<and> pi / 2 \<le> moveProgress ?s + ANIMATION_SPEED * delta")
    case False
    then show ?thesis
      by (auto simp: cubies_useFrame3D moveQueue_useFrame3D split: bool.splits option.splits)
  next
    case True
    with hd have q: "moveQueue t \<noteq> []" and cm: "currentMove ?s = Some (moveQueue t ! 0)"
      by (simp_all add: headMesh_def moveQueue_startMesh)
    from inv True cm have act: "activeCubieIds ?s = activeIds (moveQueue t ! 0) (cubies t)"
      by (simp add: invMesh_def cubies_startMesh)
    have ws: "wellStore (cubies t)" using r reachMesh_inv by (simp add: invMesh_def)
    have "cubies (useFrame3D t delta)
          = commitCubies (activeIds (moveQueue t ! 0) (cubies t))
              (setFromAxisAngle (axisVec (axis (moveQueue t ! 0)))
                 ((pi / 2) * direction (moveQueue t ! 0))) (cubies t)"
      using True cm act by (simp add: cubies_useFrame3D)
    also have "\<dots> = finishCubies (moveQueue t ! 0) (cubies t)"
      by (rule commitCubies_activeIds [OF wellStore_distinct_cid [OF ws]])
    finally have c: "cubies (useFrame3D t delta) = finishCubies (moveQueue t ! 0) (cubies t)" .
    have "moveQueue (useFrame3D t delta) = drop 1 (moveQueue t)"
      using True cm by (simp add: moveQueue_useFrame3D)
    with q c show ?thesis by simp
  qed
qed

lemma frames3D_run:
  assumes "reachMesh t"
  shows "\<exists>k \<le> length (moveQueue t).
           moveQueue (foldl useFrame3D t ds) = drop k (moveQueue t)
           \<and> cubies (foldl useFrame3D t ds)
               = foldl (\<lambda>cs mv. finishCubies mv cs) (cubies t) (take k (moveQueue t))"
  using assms
proof (induction ds arbitrary: t)
  case Nil
  show ?case by (rule exI [of _ 0]) simp
next
  case (Cons delta ds)
  let ?t = "useFrame3D t delta"
  have r: "reachMesh ?t" using Cons.prems by (rule rm_tick)
  from Cons.IH [OF r] obtain k where k: "k \<le> length (moveQueue ?t)"
    and q: "moveQueue (foldl useFrame3D ?t ds) = drop k (moveQueue ?t)"
    and c: "cubies (foldl useFrame3D ?t ds)
            = foldl (\<lambda>cs mv. finishCubies mv cs) (cubies ?t) (take k (moveQueue ?t))"
    by blast
  from useFrame3D_step [OF Cons.prems, of delta] show ?case
  proof
    assume "cubies ?t = cubies t \<and> moveQueue ?t = moveQueue t"
    with k q c show ?thesis by (intro exI [of _ k]) simp
  next
    assume a: "moveQueue t \<noteq> []
          \<and> cubies ?t = finishCubies (moveQueue t ! 0) (cubies t)
          \<and> moveQueue ?t = drop 1 (moveQueue t)"
    then obtain mv rest where mq: "moveQueue t = mv # rest"
      by (cases "moveQueue t") auto
    with a k q c show ?thesis by (intro exI [of _ "Suc k"]) simp
  qed
qed

lemma frames3D_four:
  assumes r: "reachMesh t" and q: "moveQueue t = [m, m, m, m]"
    and e: "moveQueue (foldl useFrame3D t ds) = []"
  shows "cubies (foldl useFrame3D t ds)
         = finishCubies m (finishCubies m (finishCubies m (finishCubies m (cubies t))))"
proof -
  from frames3D_run [OF r, of ds] obtain k where k: "k \<le> length (moveQueue t)"
    and dq: "moveQueue (foldl useFrame3D t ds) = drop k (moveQueue t)"
    and c: "cubies (foldl useFrame3D t ds)
            = foldl (\<lambda>cs mv. finishCubies mv cs) (cubies t) (take k (moveQueue t))"
    by blast
  from dq e k have "k = 4" by (simp add: q)
  with c show ?thesis by (simp add: q)
qed

subsection \<open>Following one cubie through a commit\<close>

lemma nth_finishCubies:
  assumes "wellStore cs" and "tableMove m" and "i < 27"
  shows "finishCubies m cs ! i =
           (if isInSlice (position (cs ! i)) (axis m) (slice m) then turned m (cs ! i) else cs ! i)"
proof -
  have "finishCubies m cs =
          map (\<lambda>c. if isInSlice (position c) (axis m) (slice m) then turned m c else c) cs"
    using assms(1,2) by (intro finishCubies_lattice tableMove_direction wellStore_onLattice)
  moreover have "i < length cs"
    using assms(1,3) by (simp add: length_wellStore)
  ultimately show ?thesis by simp
qed

lemma useFrame_complete:
  assumes idle: "\<not> isAnimatingRef s" and q: "moveQueue s = m # rest"
    and piv: "pivotRef s = Some p" and big: "1 / 6 \<le> delta"
  shows "cubies (useFrame s delta) = finishCubies m (cubies s)"
    and "moveQueue (useFrame s delta) = rest"
    and "\<not> isAnimatingRef (useFrame s delta)"
    and "pivotRef (useFrame s delta) = Some newQuaternion"
proof -
  have st: "startScreen s = s\<lparr>currentMoveRef := Some m, isAnimatingRef := True, progressRef := 0\<rparr>"
    using idle q by (simp add: startScreen_def)
  have sp: "1 \<le> delta * (if length (moveQueue s) > 5 then 20 else 6)"
    using big by simp
  show "cubies (useFrame s delta) = finishCubies m (cubies s)"
    using sp piv unfolding cubies_useFrame st by simp
  show "moveQueue (useFrame s delta) = rest"
    using sp piv q unfolding useFrame_def st
    by (simp add: Let_def finishMove_def handleMoveComplete_def)
  show "\<not> isAnimatingRef (useFrame s delta)"
    using sp piv unfolding useFrame_def st by (simp add: Let_def finishMove_def)
  show "pivotRef (useFrame s delta) = Some newQuaternion"
    using sp piv unfolding useFrame_def st by (simp add: Let_def finishMove_def)
qed

subsection \<open>Materials depend on the id only\<close>

lemma myMaterials_cid: "cid c = cid c' \<Longrightarrow> myMaterials c = myMaterials c'"
  by (simp add: myMaterials_def)

lemma myMaterials_same_ids:
  assumes "map cid cs = map cid cs'"
  shows "map myMaterials cs = map myMaterials cs'"
proof (rule nth_equalityI)
  from assms have "length (map cid cs) = length (map cid cs')" by simp
  then show len: "length (map myMaterials cs) = length (map myMaterials cs')" by simp
  fix i assume "i < length (map myMaterials cs)"
  then have i: "i < length cs" "i < length cs'" using len by simp_all
  then have "map cid cs ! i = cid (cs ! i)" "map cid cs' ! i = cid (cs' ! i)" by simp_all
  with assms have "cid (cs ! i) = cid (cs' ! i)" by simp
  then have "myMaterials (cs ! i) = myMaterials (cs' ! i)" by (rule myMaterials_cid)
  with i show "map myMaterials cs ! i = map myMaterials cs' ! i" by simp
qed

lemma myMaterials_initial: "map myMaterials initCubies3D = map colorAssignment latticeOrder"
  by (simp add: initCubies3D_def latticeOrder_eq myMaterials_def colorAssignment_def)

subsection \<open>The scramble loops\<close>

lemma drawMove_table: "drawMove u = Inr m \<Longrightarrow> m \<in> set moveTable"
  by (auto simp: drawMove_def Let_def moveTable_def split: if_splits option.splits
           dest!: map_of_SomeD intro!: image_eqI [where x = "(_, m)"])

lemma redraw_result:
  assumes "redraw lastAxis move us = Inr (m, us')"
  shows "Some (axis m) \<noteq> lastAxis \<and> (move \<in> set moveTable \<longrightarrow> m \<in> set moveTable)"
  using assms
proof (induction us arbitrary: move)
  case Nil
  then show ?case by (simp split: if_splits)
next
  case (Cons u us)
  show ?case
  proof (cases "Some (axis move) = lastAxis")
    case False
    with Cons.prems show ?thesis by simp
  next
    case True
    with Cons.prems obtain move' where dm: "drawMove u = Inr move'"
      and rec: "redraw lastAxis move' us = Inr (m, us')"
      by (auto split: sum.splits)
    from Cons.IH [OF rec] drawMove_table [OF dm] show ?thesis by simp
  qed
qed

lemma scrambleLoop_result:
  assumes "scrambleLoop n lastAxis newMoves us = Inr ms"
    and "distinct_adj (map axis newMoves)"
    and "lastAxis = (if newMoves = [] then None else Some (axis (last newMoves)))"
    and "set newMoves \<subseteq> set moveTable"
  shows "length ms = length newMoves + n \<and> distinct_adj (map axis ms)
         \<and> set ms \<subseteq> set moveTable"
  using assms
proof (induction n lastAxis newMoves us rule: scrambleLoop.induct)
  case (1 lastAxis newMoves us)
  then show ?case by simp
next
  case (2 n lastAxis newMoves)
  then show ?case by simp
next
  case (3 n lastAxis newMoves u us)
  from "3.prems"(1) obtain move0 move us' where dm: "drawMove u = Inr move0"
    and rd: "redraw lastAxis move0 us = Inr (move, us')"
    and rec: "scrambleLoop n (Some (axis move)) (newMoves @ [move]) us' = Inr ms"
    by (auto split: sum.splits)
  from redraw_result [OF rd] drawMove_table [OF dm]
  have ne: "Some (axis move) \<noteq> lastAxis" and tm: "move \<in> set moveTable"
    by simp_all
  have adj: "distinct_adj (map axis (newMoves @ [move]))"
    using "3.prems"(2,3) ne by (auto simp: distinct_adj_append_iff last_map)
  have last: "Some (axis move)
              = (if newMoves @ [move] = [] then None else Some (axis (last (newMoves @ [move]))))"
    by simp
  have sub: "set (newMoves @ [move]) \<subseteq> set moveTable"
    using "3.prems"(4) tm by simp
  from "3.IH" [OF dm rd refl rec adj last sub] show ?case
    by simp
qed

lemma drawMove_0: "drawMove 0 = Inr (mkMove Y 1 (-1) ''U'')"
  by (simp add: drawMove_def randInt_def scrambleKeys_def MOVES_def Let_def)

lemma drawMove_25: "drawMove (2 / 5) = Inr (mkMove X (-1) 1 ''L'')"
  by (simp add: drawMove_def randInt_def scrambleKeys_def MOVES_def Let_def)

lemma drawMove_in_range:
  assumes "0 \<le> u" and "u < 1"
  shows "\<exists>m. drawMove u = Inr m"
proof -
  have len: "length scrambleKeys = 12"
    by (simp add: scrambleKeys_def MOVES_def)
  let ?i = "randInt 0 (int (length scrambleKeys) - 1) u"
  have i: "?i = \<lfloor>u * 12\<rfloor>" by (simp add: randInt_def len)
  have "0 \<le> u * 12" "u * 12 < 12" using assms by simp_all
  then have range: "0 \<le> ?i" "?i < 12"
    unfolding i by (simp_all add: floor_less_iff)
  then have "nat ?i < length scrambleKeys" by (simp add: len)
  then have "scrambleKeys ! nat ?i \<in> set scrambleKeys" by (rule nth_mem)
  then have "scrambleKeys ! nat ?i \<in> fst ` set MOVES"
    by (simp add: scrambleKeys_def)
  then obtain m where "map_of MOVES (scrambleKeys ! nat ?i) = Some m"
    by (metis domD dom_map_of_conv_image_fst)
  with range show ?thesis
    by (simp add: drawMove_def Let_def len)
qed

text \<open>With values that \<open>Math.random()\<close> can return, the scramble never throws: it
  returns, or it is still drawing when the list ends.\<close>

lemma redraw_no_TypeError:
  assumes "\<forall>u \<in> set us. 0 \<le> u \<and> u < 1"
  shows "redraw lastAxis move us \<noteq> Inl TypeError
         \<and> (\<forall>m us'. redraw lastAxis move us = Inr (m, us') \<longrightarrow> set us' \<subseteq> set us)"
  using assms
proof (induction us arbitrary: move)
  case Nil
  then show ?case by simp
next
  case (Cons u us)
  then obtain m where "drawMove u = Inr m"
    using drawMove_in_range [of u] by auto
  with Cons show ?case by auto
qed

lemma scrambleLoop_no_TypeError:
  assumes "\<forall>u \<in> set us. 0 \<le> u \<and> u < 1"
  shows "scrambleLoop n lastAxis newMoves us \<noteq> Inl TypeError"
  using assms
proof (induction n lastAxis newMoves us rule: scrambleLoop.induct)
  case (1 lastAxis newMoves us)
  then show ?case by simp
next
  case (2 n lastAxis newMoves)
  then show ?case by simp
next
  case (3 n lastAxis newMoves u us)
  then obtain move0 where dm: "drawMove u = Inr move0"
    using drawMove_in_range [of u] by auto
  from "3.prems" have us: "\<forall>u \<in> set us. 0 \<le> u \<and> u < 1" by simp
  show ?case
  proof (cases "redraw lastAxis move0 us")
    case (Inl e)
    with redraw_no_TypeError [OF us, of lastAxis move0] dm show ?thesis
      by (cases e) simp_all
  next
    case (Inr r)
    obtain move us' where r: "r = (move, us')" by (cases r)
    with Inr redraw_no_TypeError [OF us, of lastAxis move0] have "set us' \<subseteq> set us"
      by blast
    with us have "\<forall>u \<in> set us'. 0 \<le> u \<and> u < 1" by blast
    from "3.IH" [OF dm Inr [unfolded r] refl this] dm Inr r show ?thesis
      by simp
  qed
qed

lemma scrambleMoves_no_TypeError:
  assumes "\<forall>u \<in> set us. 0 \<le> u \<and> u < 1"
  shows "scrambleMoves us \<noteq> Inl TypeError"
  using assms by (simp add: scrambleMoves_def scrambleLoop_no_TypeError)

subsection \<open>The resolver on a cubie that lies on a coordinate axis\<close>

lemma apply_on_axis:
  assumes "case ax of X \<Rightarrow> vy v = 0 \<and> vz v = 0 | Y \<Rightarrow> vx v = 0 \<and> vz v = 0
           | Z \<Rightarrow> vx v = 0 \<and> vy v = 0"
  shows "applyQuaternion v (setFromAxisAngle (axisVec ax) angle) = v"
  using assms
  by (cases v; cases ax) (simp_all add: applyQuaternion_def setFromAxisAngle_def axisVec_def Let_def)

lemma scoreMove_on_axis:
  assumes p: "(vx (position cubie) \<noteq> 0 \<and> vy (position cubie) = 0 \<and> vz (position cubie) = 0)
            \<or> (vx (position cubie) = 0 \<and> vy (position cubie) \<noteq> 0 \<and> vz (position cubie) = 0)
            \<or> (vx (position cubie) = 0 \<and> vy (position cubie) = 0 \<and> vz (position cubie) \<noteq> 0)"
    and sl: "slice move = 1 \<or> slice move = -1"
  shows "scoreMove project cubie dragDir move = None"
proof (cases "isInSlice (position cubie) (axis move) (slice move)")
  case False
  then show ?thesis by (simp add: scoreMove_def)
next
  case True
  with p sl have "case axis move of
        X \<Rightarrow> vy (position cubie) = 0 \<and> vz (position cubie) = 0
      | Y \<Rightarrow> vx (position cubie) = 0 \<and> vz (position cubie) = 0
      | Z \<Rightarrow> vx (position cubie) = 0 \<and> vy (position cubie) = 0"
    by (cases "axis move") (auto simp: isInSlice_def)
  then have "applyQuaternion (position cubie)
               (setFromAxisAngle (axisVec (axis move)) (degToRad 10 * direction move))
             = position cubie"
    by (rule apply_on_axis)
  then show ?thesis
    by (simp add: scoreMove_def Let_def sub3_def lengthSq_def)
qed

lemma foldl_no_score:
  assumes "\<forall>(key, move) \<in> set xs. scoreMove project cubie dragDir move = None"
  shows "foldl (\<lambda>(maxScore, bestMoveKey) (key, move).
                  case scoreMove project cubie dragDir move of
                    None \<Rightarrow> (maxScore, bestMoveKey)
                  | Some score \<Rightarrow>
                      (if (case maxScore of None \<Rightarrow> True | Some m \<Rightarrow> score > m)
                       then (Some score, key) else (maxScore, bestMoveKey)))
               acc xs = acc"
  using assms by (induction xs arbitrary: acc) (auto split: prod.splits)

subsection \<open>Enqueueing by key\<close>

lemma handleMove_own_key:
  assumes "map_of MOVES key = Some m"
  shows "handleMove key prev = prev @ [MoveValue m]"
  using assms by (simp add: handleMove_def MOVES_get_def truthy_def)

lemma handleMove_unknown_key:
  assumes "map_of MOVES key = None" and "key \<notin> set objectPrototypeKeys"
  shows "handleMove key prev = prev"
  using assms by (simp add: handleMove_def MOVES_get_def truthy_def)

lemma handleMove_inherited_key:
  assumes "map_of MOVES key = None" and "key \<in> set objectPrototypeKeys"
  shows "handleMove key prev = prev @ [Inherited key]"
  using assms by (simp add: handleMove_def MOVES_get_def truthy_def)

section \<open>The frame of a commit\<close>

text \<open>
  Claim C10. A commit rewrites only the cubies of the affected set: in part\_000 a cubie
  whose position is not in the slice of the move, and in Cube3D.tsx a cubie whose id is
  not among the active ids snapshotted for the move, is the same cubie (id, position,
  rotation and name) after the commit, at the same place in the list.
\<close>

theorem commit_frame:
  assumes "i < length (cubies s)" and "j < length (cubies t)"
  shows "(\<not> isInSlice (position (cubies s ! i)) (axis move) (slice move) \<longrightarrow>
            cubies (finishMove move s) ! i = cubies s ! i)
       \<and> (cid (cubies t ! j) \<notin> set (activeCubieIds (startMesh t)) \<longrightarrow>
            cubies (useFrame3D t delta) ! j = cubies t ! j)"
  using assms
  by (auto simp: cubies_finishMove finishCubies_def Let_def cubies_useFrame3D commitCubies_def
           split: bool.splits option.splits)

theorem commit_frame_witness:
  "0 < length (cubies initScreen) \<and> 0 < length (cubies (initMesh\<lparr>moveQueue := [mkMove Y 1 (-1) ''U'']\<rparr>))
   \<and> \<not> isInSlice (position (cubies initScreen ! 0)) Y 1
   \<and> cubies (finishMove (mkMove Y 1 (-1) ''U'') initScreen) ! 0 = cubies initScreen ! 0
   \<and> cid (cubies (initMesh\<lparr>moveQueue := [mkMove Y 1 (-1) ''U'']\<rparr>) ! 0)
        \<notin> set (activeCubieIds (startMesh (initMesh\<lparr>moveQueue := [mkMove Y 1 (-1) ''U'']\<rparr>)))
   \<and> cubies (useFrame3D (initMesh\<lparr>moveQueue := [mkMove Y 1 (-1) ''U'']\<rparr>) 1) ! 0
        = cubies (initMesh\<lparr>moveQueue := [mkMove Y 1 (-1) ''U'']\<rparr>) ! 0"
proof -
  let ?m = "mkMove Y 1 (-1) ''U''"
  let ?t = "initMesh\<lparr>moveQueue := [?m]\<rparr>"
  have a: "0 < length (cubies initScreen)"
    by (simp add: initScreen_def initCubies_def latticeOrder_eq)
  have b: "0 < length (cubies ?t)"
    by (simp add: initMesh_def initCubies3D_def latticeOrder_eq)
  have c: "\<not> isInSlice (position (cubies initScreen ! 0)) (axis ?m) (slice ?m)"
    by (simp add: initScreen_def initCubies_def latticeOrder_eq isInSlice_def mkMove_def)
  have d: "cid (cubies ?t ! 0) \<notin> set (activeCubieIds (startMesh ?t))"
    by (simp add: initMesh_def initCubies3D_def latticeOrder_eq startMesh_def activeIds_def
          mkMove_def Let_def)
  from commit_frame [OF a b, of ?m 1] c d show ?thesis
    using a b by (simp add: mkMove_def)
qed

section \<open>The bijection invariant\<close>

text \<open>
  Claim C2. In every state either machine can reach from its initial store, through any
  frames and any moves of the table appended to the queue, the store holds 27 cubies
  whose positions are pairwise distinct and are exactly the points of the lattice
  \<open>{-1,0,1}\<^sup>3\<close>. The logical positions change only at a commit, so this holds while a
  turn is being animated as well as between turns.
\<close>

theorem positions_bijection:
  "(reachScreen s \<longrightarrow>
      length (cubies s) = 27 \<and> distinct (map position (cubies s))
      \<and> set (map position (cubies s))
          = {Vector3 a b c | a b c. a \<in> {-1, 0, 1} \<and> b \<in> {-1, 0, 1} \<and> c \<in> {-1, 0, 1}})
   \<and> (reachMesh t \<longrightarrow>
      length (cubies t) = 27 \<and> distinct (map position (cubies t))
      \<and> set (map position (cubies t))
          = {Vector3 a b c | a b c. a \<in> {-1, 0, 1} \<and> b \<in> {-1, 0, 1} \<and> c \<in> {-1, 0, 1}})"
proof (intro conjI impI)
  assume "reachScreen s"
  then have w: "wellStore (cubies s)"
    using reachScreen_inv by (simp add: invScreen_def)
  then show "length (cubies s) = 27" by (rule length_wellStore)
  from w show "distinct (map position (cubies s))"
    by (simp add: wellStore_def bijLattice_def)
  from w show "set (map position (cubies s))
      = {Vector3 a b c | a b c. a \<in> {-1, 0, 1} \<and> b \<in> {-1, 0, 1} \<and> c \<in> {-1, 0, 1}}"
    by (simp only: wellStore_def bijLattice_def lattice_explicit)
next
  assume "reachMesh t"
  then have w: "wellStore (cubies t)"
    using reachMesh_inv by (simp add: invMesh_def)
  then show "length (cubies t) = 27" by (rule length_wellStore)
  from w show "distinct (map position (cubies t))"
    by (simp add: wellStore_def bijLattice_def)
  from w show "set (map position (cubies t))
      = {Vector3 a b c | a b c. a \<in> {-1, 0, 1} \<and> b \<in> {-1, 0, 1} \<and> c \<in> {-1, 0, 1}}"
    by (simp only: wellStore_def bijLattice_def lattice_explicit)
qed

theorem positions_bijection_witness:
  "reachScreen (useFrame (initScreen\<lparr>moveQueue := moveQueue initScreen @ [mkMove Y 1 (-1) ''U'']\<rparr>) 1)
   \<and> moveQueue (useFrame (initScreen\<lparr>moveQueue := moveQueue initScreen @ [mkMove Y 1 (-1) ''U'']\<rparr>) 1) = []
   \<and> length (cubies (useFrame (initScreen\<lparr>moveQueue := moveQueue initScreen @ [mkMove Y 1 (-1) ''U'']\<rparr>) 1)) = 27
   \<and> distinct (map position (cubies (useFrame (initScreen\<lparr>moveQueue := moveQueue initScreen @ [mkMove Y 1 (-1) ''U'']\<rparr>) 1)))
   \<and> reachMesh (useFrame3D (initMesh\<lparr>moveQueue := moveQueue initMesh @ [mkMove Y 1 (-1) ''U'']\<rparr>) 1)
   \<and> moveQueue (useFrame3D (initMesh\<lparr>moveQueue := moveQueue initMesh @ [mkMove Y 1 (-1) ''U'']\<rparr>) 1) = []
   \<and> length (cubies (useFrame3D (initMesh\<lparr>moveQueue := moveQueue initMesh @ [mkMove Y 1 (-1) ''U'']\<rparr>) 1)) = 27
   \<and> distinct (map position (cubies (useFrame3D (initMesh\<lparr>moveQueue := moveQueue initMesh @ [mkMove Y 1 (-1) ''U'']\<rparr>) 1)))"
proof -
  let ?s = "useFrame (initScreen\<lparr>moveQueue := moveQueue initScreen @ [mkMove Y 1 (-1) ''U'']\<rparr>) 1"
  let ?t = "useFrame3D (initMesh\<lparr>moveQueue := moveQueue initMesh @ [mkMove Y 1 (-1) ''U'']\<rparr>) 1"
  have rs: "reachScreen ?s"
    by (intro rs_tick rs_enqueue rs_init U1_tableMove)
  have rt: "reachMesh ?t"
    by (intro rm_tick rm_enqueue rm_init U1_tableMove)
  have qs: "moveQueue ?s = []"
    by (simp add: useFrame_def startScreen_def initScreen_def finishMove_def
          handleMoveComplete_def Let_def)
  have "pi / 2 \<le> 5" using pi_less_4 by simp
  then have qt: "moveQueue ?t = []"
    by (simp add: useFrame3D_def startMesh_def initMesh_def ANIMATION_SPEED_def
          handleMoveComplete_def Let_def)
  from positions_bijection [of ?s ?t] rs rt qs qt show ?thesis
    by simp
qed

section \<open>Slices hold nine cubies\<close>

text \<open>
  Claim C6. In every reachable state of either machine, for every axis and every slice
  value in \<open>{-1,0,1}\<close>, the cubies whose coordinate along the axis is within the
  tolerance \<open>0.1\<close> of the slice value are nine, with nine different ids. In Cube3D.tsx
  this is the snapshot \<open>activeCubieIds\<close> taken when a move starts.
\<close>

theorem slice_has_nine:
  assumes "sl \<in> {-1, 0, 1}" and "slice m \<in> {-1, 0, 1}"
  shows "(reachScreen s \<longrightarrow>
            length (filter (\<lambda>c. isInSlice (position c) ax sl) (cubies s)) = 9
            \<and> card (set (map cid (filter (\<lambda>c. isInSlice (position c) ax sl) (cubies s)))) = 9)
       \<and> (reachMesh t \<longrightarrow>
            length (activeIds m (cubies t)) = 9 \<and> card (set (activeIds m (cubies t))) = 9)"
proof (intro conjI impI)
  assume "reachScreen s"
  then have w: "wellStore (cubies s)"
    using reachScreen_inv by (simp add: invScreen_def)
  from assms(1) have sl: "sl \<in> unit3" by (simp add: unit3_def)
  from w sl show len: "length (filter (\<lambda>c. isInSlice (position c) ax sl) (cubies s)) = 9"
    by (simp add: wellStore_def slice_length)
  have "card (set (map cid (filter (\<lambda>c. isInSlice (position c) ax sl) (cubies s))))
        = length (map cid (filter (\<lambda>c. isInSlice (position c) ax sl) (cubies s)))"
    using w by (intro distinct_card slice_ids_distinct)
  with len show "card (set (map cid (filter (\<lambda>c. isInSlice (position c) ax sl) (cubies s)))) = 9"
    by simp
next
  assume "reachMesh t"
  then have w: "wellStore (cubies t)"
    using reachMesh_inv by (simp add: invMesh_def)
  from assms(2) have sl: "slice m \<in> unit3" by (simp add: unit3_def)
  from w sl show len: "length (activeIds m (cubies t)) = 9"
    by (simp add: activeIds_isInSlice wellStore_def slice_length)
  have "card (set (activeIds m (cubies t))) = length (activeIds m (cubies t))"
    unfolding activeIds_isInSlice using w by (intro distinct_card slice_ids_distinct)
  with len show "card (set (activeIds m (cubies t))) = 9"
    by simp
qed

theorem slice_has_nine_witness:
  "(1::real) \<in> {-1, 0, 1} \<and> slice (mkMove X 1 (-1) ''R'') \<in> {-1, 0, 1}
   \<and> reachScreen (useFrame (initScreen\<lparr>moveQueue := moveQueue initScreen @ [mkMove Y 1 (-1) ''U'']\<rparr>) 1)
   \<and> length (filter (\<lambda>c. isInSlice (position c) X 1)
        (cubies (useFrame (initScreen\<lparr>moveQueue := moveQueue initScreen @ [mkMove Y 1 (-1) ''U'']\<rparr>) 1))) = 9
   \<and> reachMesh (useFrame3D (initMesh\<lparr>moveQueue := moveQueue initMesh @ [mkMove Y 1 (-1) ''U'']\<rparr>) 1)
   \<and> card (set (activeIds (mkMove X 1 (-1) ''R'')
        (cubies (useFrame3D (initMesh\<lparr>moveQueue := moveQueue initMesh @ [mkMove Y 1 (-1) ''U'']\<rparr>) 1)))) = 9"
proof -
  let ?s = "useFrame (initScreen\<lparr>moveQueue := moveQueue initScreen @ [mkMove Y 1 (-1) ''U'']\<rparr>) 1"
  let ?t = "useFrame3D (initMesh\<lparr>moveQueue := moveQueue initMesh @ [mkMove Y 1 (-1) ''U'']\<rparr>) 1"
  have rs: "reachScreen ?s"
    by (intro rs_tick rs_enqueue rs_init U1_tableMove)
  have rt: "reachMesh ?t"
    by (intro rm_tick rm_enqueue rm_init U1_tableMove)
  have a: "(1::real) \<in> {-1, 0, 1}" by simp
  have b: "slice (mkMove X 1 (-1) ''R'') \<in> {-1, 0, 1}" by (simp add: mkMove_def)
  from slice_has_nine [OF a b, of ?s X ?t] rs rt a b show ?thesis
    by simp
qed

section \<open>The inverse law\<close>

text \<open>
  Claim C1, as the code has it. Every move of the table has in the table a move with the
  same axis and slice and the opposite direction. In every reachable state of the
  machine of part\_000, completing a table move and then completing such an inverse
  gives back every cubie's id, name and position exactly and leaves every cubie outside
  the slice as it was. The rotation of a cubie of the slice is not rounded by the
  program: it becomes the product, in doubles, of the two quarter-turn quaternions with
  the rotation it had. That product need not be the rotation it had; each of its
  components is within \<open>2\<^sup>-\<^sup>5\<^sup>0\<close> of the size of that rotation (and 16 half
  spacings of the subnormal numbers) of the component it had.
\<close>

theorem inverse_law:
  assumes "(k, m) \<in> set MOVES" and "reachScreen s"
  shows "(\<exists>(k', m') \<in> set MOVES.
            axis m' = axis m \<and> slice m' = slice m \<and> direction m' = - direction m)
       \<and> (\<forall>(k', m') \<in> set MOVES.
            axis m' = axis m \<and> slice m' = slice m \<and> direction m' = - direction m
            \<longrightarrow> cubies (finishMove m' (finishMove m s))
                = map (\<lambda>c. if isInSlice (position c) (axis m) (slice m)
                            then c\<lparr>rotation :=
                                   premultiply
                                     (premultiply (rotation c)
                                        (setFromAxisAngle (axisVec (axis m))
                                           ((pi / 2) * direction m)))
                                     (setFromAxisAngle (axisVec (axis m'))
                                        ((pi / 2) * direction m'))\<rparr>
                            else c) (cubies s)
              \<and> (\<forall>i < length (cubies s).
                    qdist (rotation (cubies (finishMove m' (finishMove m s)) ! i))
                          (rotation (cubies s ! i))
                    \<le> qnorm1 (rotation (cubies s ! i)) / 2 ^ 50 + 16 * minHalfUlp))"
proof (intro conjI)
  show "\<exists>(k', m') \<in> set MOVES.
          axis m' = axis m \<and> slice m' = slice m \<and> direction m' = - direction m"
    using assms(1) by (rule MOVES_inverse_exists)
next
  have d: "direction m = 1 \<or> direction m = -1"
    using assms(1) by (intro tableMove_direction MOVES_tableMove)
  have lat: "\<forall>c \<in> set (cubies s). onLattice (position c)"
    using assms(2) by (rule reachScreen_onLattice)
  show "\<forall>(k', m') \<in> set MOVES.
          axis m' = axis m \<and> slice m' = slice m \<and> direction m' = - direction m
          \<longrightarrow> cubies (finishMove m' (finishMove m s))
              = map (\<lambda>c. if isInSlice (position c) (axis m) (slice m)
                          then c\<lparr>rotation :=
                                 premultiply
                                   (premultiply (rotation c)
                                      (setFromAxisAngle (axisVec (axis m))
                                         ((pi / 2) * direction m)))
                                   (setFromAxisAngle (axisVec (axis m'))
                                      ((pi / 2) * direction m'))\<rparr>
                          else c) (cubies s)
            \<and> (\<forall>i < length (cubies s).
                  qdist (rotation (cubies (finishMove m' (finishMove m s)) ! i))
                        (rotation (cubies s ! i))
                  \<le> qnorm1 (rotation (cubies s ! i)) / 2 ^ 50 + 16 * minHalfUlp)"
  proof (intro ballI, clarify)
    fix k' :: string and m' :: Move
    assume same: "axis m' = axis m" "slice m' = slice m" "direction m' = - direction m"
    have eq: "cubies (finishMove m' (finishMove m s))
          = inSliceMap m
              (\<lambda>c. c\<lparr>rotation := multiplyQuaternions (quarter (axis m) (- direction m))
                           (multiplyQuaternions (quarter (axis m) (direction m)) (rotation c))\<rparr>)
              (cubies s)"
      using d same lat by (simp only: cubies_finishMove finishCubies_inverse)
    have A: "cubies (finishMove m' (finishMove m s))
          = map (\<lambda>c. if isInSlice (position c) (axis m) (slice m)
                      then c\<lparr>rotation :=
                             premultiply
                               (premultiply (rotation c)
                                  (setFromAxisAngle (axisVec (axis m))
                                     ((pi / 2) * direction m)))
                               (setFromAxisAngle (axisVec (axis m'))
                                  ((pi / 2) * direction m'))\<rparr>
                      else c) (cubies s)"
      using eq by (simp only: inSliceMap_def premultiply_def quarter_def same)
    have B: "\<forall>i < length (cubies s).
               qdist (rotation (cubies (finishMove m' (finishMove m s)) ! i))
                     (rotation (cubies s ! i))
               \<le> qnorm1 (rotation (cubies s ! i)) / 2 ^ 50 + 16 * minHalfUlp"
    proof (intro allI impI)
      fix i
      assume i: "i < length (cubies s)"
      let ?c = "cubies s ! i"
      have z: "(0::real) \<le> 16" by simp
      have r: "rotation (cubies (finishMove m' (finishMove m s)) ! i)
               = (if isInSlice (position ?c) (axis m) (slice m)
                  then multiplyQuaternions (quarter (axis m) (- direction m))
                         (multiplyQuaternions (quarter (axis m) (direction m)) (rotation ?c))
                  else rotation ?c)"
        unfolding eq
        by (rule inSliceMap_nth_rotation [OF i, where f = "\<lambda>r.
              multiplyQuaternions (quarter (axis m) (- direction m))
                (multiplyQuaternions (quarter (axis m) (direction m)) r)"])
      show "qdist (rotation (cubies (finishMove m' (finishMove m s)) ! i)) (rotation ?c)
            \<le> qnorm1 (rotation ?c) / 2 ^ 50 + 16 * minHalfUlp"
      proof (cases "isInSlice (position ?c) (axis m) (slice m)")
        case True
        show ?thesis
          unfolding r using True by (simp only: if_True inverse_near [OF d])
      next
        case False
        show ?thesis
          unfolding r using False by (simp only: if_False qdist_refl near_bound_nonneg [OF z])
      qed
    qed
    from A B show "cubies (finishMove m' (finishMove m s))
          = map (\<lambda>c. if isInSlice (position c) (axis m) (slice m)
                      then c\<lparr>rotation :=
                             premultiply
                               (premultiply (rotation c)
                                  (setFromAxisAngle (axisVec (axis m))
                                     ((pi / 2) * direction m)))
                               (setFromAxisAngle (axisVec (axis m'))
                                  ((pi / 2) * direction m'))\<rparr>
                      else c) (cubies s)
        \<and> (\<forall>i < length (cubies s).
              qdist (rotation (cubies (finishMove m' (finishMove m s)) ! i))
                    (rotation (cubies s ! i))
              \<le> qnorm1 (rotation (cubies s ! i)) / 2 ^ 50 + 16 * minHalfUlp)"
      by (rule conjI)
  qed
qed

theorem inverse_law_witness:
  "(''R1'', mkMove X 1 (-1) ''R'') \<in> set MOVES
   \<and> reachScreen (useFrame (initScreen\<lparr>moveQueue := moveQueue initScreen @ [mkMove Y 1 (-1) ''U'']\<rparr>) 1)
   \<and> map position (cubies (finishMove (mkMove X 1 1 (''R'' @ [CHR 0x27])) (finishMove (mkMove X 1 (-1) ''R'')
        (useFrame (initScreen\<lparr>moveQueue := moveQueue initScreen @ [mkMove Y 1 (-1) ''U'']\<rparr>) 1))))
      = map position (cubies (useFrame (initScreen\<lparr>moveQueue := moveQueue initScreen @ [mkMove Y 1 (-1) ''U'']\<rparr>) 1))
   \<and> qdist (rotation (cubies (finishMove (mkMove X 1 1 (''R'' @ [CHR 0x27])) (finishMove (mkMove X 1 (-1) ''R'')
        (useFrame (initScreen\<lparr>moveQueue := moveQueue initScreen @ [mkMove Y 1 (-1) ''U'']\<rparr>) 1))) ! 26))
       (rotation (cubies (useFrame (initScreen\<lparr>moveQueue := moveQueue initScreen @ [mkMove Y 1 (-1) ''U'']\<rparr>) 1) ! 26))
     \<le> qnorm1 (rotation (cubies (useFrame (initScreen\<lparr>moveQueue := moveQueue initScreen @ [mkMove Y 1 (-1) ''U'']\<rparr>) 1) ! 26))
         / 2 ^ 50 + 16 * minHalfUlp"
proof -
  let ?s = "useFrame (initScreen\<lparr>moveQueue := moveQueue initScreen @ [mkMove Y 1 (-1) ''U'']\<rparr>) 1"
  let ?R = "mkMove X 1 (-1) ''R''" and ?R' = "mkMove X 1 1 (''R'' @ [CHR 0x27])"
  have a: "(''R1'', ?R) \<in> set MOVES"
    by (simp add: MOVES_def)
  have b: "reachScreen ?s"
    by (intro rs_tick rs_enqueue rs_init U1_tableMove)
  have c: "(''R2'', ?R') \<in> set MOVES"
    by (simp add: MOVES_def)
  have "wellStore (cubies ?s)"
    using reachScreen_inv [OF b] by (simp add: invScreen_def)
  then have len: "26 < length (cubies ?s)"
    by (simp add: length_wellStore)
  from inverse_law [OF a b] have
    "\<forall>(k', m') \<in> set MOVES.
        axis m' = axis ?R \<and> slice m' = slice ?R \<and> direction m' = - direction ?R
        \<longrightarrow> cubies (finishMove m' (finishMove ?R ?s))
            = map (\<lambda>c. if isInSlice (position c) (axis ?R) (slice ?R)
                        then c\<lparr>rotation :=
                               premultiply
                                 (premultiply (rotation c)
                                    (setFromAxisAngle (axisVec (axis ?R)) ((pi / 2) * direction ?R)))
                                 (setFromAxisAngle (axisVec (axis m')) ((pi / 2) * direction m'))\<rparr>
                        else c) (cubies ?s)
          \<and> (\<forall>i < length (cubies ?s).
                qdist (rotation (cubies (finishMove m' (finishMove ?R ?s)) ! i))
                      (rotation (cubies ?s ! i))
                \<le> qnorm1 (rotation (cubies ?s ! i)) / 2 ^ 50 + 16 * minHalfUlp)"
    by (rule conjunct2)
  from bspec [OF this c] have imp:
    "axis ?R' = axis ?R \<and> slice ?R' = slice ?R \<and> direction ?R' = - direction ?R
     \<longrightarrow> cubies (finishMove ?R' (finishMove ?R ?s))
         = map (\<lambda>c. if isInSlice (position c) (axis ?R) (slice ?R)
                     then c\<lparr>rotation :=
                            premultiply
                              (premultiply (rotation c)
                                 (setFromAxisAngle (axisVec (axis ?R)) ((pi / 2) * direction ?R)))
                              (setFromAxisAngle (axisVec (axis ?R')) ((pi / 2) * direction ?R'))\<rparr>
                     else c) (cubies ?s)
       \<and> (\<forall>i < length (cubies ?s).
             qdist (rotation (cubies (finishMove ?R' (finishMove ?R ?s)) ! i))
                   (rotation (cubies ?s ! i))
             \<le> qnorm1 (rotation (cubies ?s ! i)) / 2 ^ 50 + 16 * minHalfUlp)"
    by (simp only: prod.case)
  have cond: "axis ?R' = axis ?R \<and> slice ?R' = slice ?R \<and> direction ?R' = - direction ?R"
    by (simp add: mkMove_sel)
  note both = mp [OF imp cond]
  from both have "map position (cubies (finishMove ?R' (finishMove ?R ?s))) = map position (cubies ?s)"
    by (simp add: comp_def if_distrib [of position] cong: if_cong)
  moreover from both len have
    "qdist (rotation (cubies (finishMove ?R' (finishMove ?R ?s)) ! 26)) (rotation (cubies ?s ! 26))
     \<le> qnorm1 (rotation (cubies ?s ! 26)) / 2 ^ 50 + 16 * minHalfUlp"
    by blast
  ultimately show ?thesis
    using a b by (intro conjI)
qed

text \<open>
  The claim as stated fails at the reachable state after the turns \<open>U\<close> and \<open>L\<close>: there
  the cubie with id 8 has the rotation \<open>(0.5, -0.5, -0.4999999999999999,
  0.5000000000000001)\<close>, and after \<open>U'\<close> followed by its inverse \<open>U\<close> it has
  \<open>(0.49999999999999994, -0.5, -0.49999999999999994, 0.5000000000000001)\<close>.
\<close>

theorem inverse_law_counterexample:
  "reachScreen (useFrame (useFrame
       (initScreen\<lparr>moveQueue := [mkMove Y 1 (-1) ''U'', mkMove X (-1) 1 ''L'']\<rparr>) 1) 1)
   \<and> rotation (cubies (useFrame (useFrame
       (initScreen\<lparr>moveQueue := [mkMove Y 1 (-1) ''U'', mkMove X (-1) 1 ''L'']\<rparr>) 1) 1) ! 8)
     = Quaternion (1 / 2) (- (1 / 2)) (- (4503599627370495 / 2 ^ 53)) (4503599627370497 / 2 ^ 53)
   \<and> rotation (cubies (finishMove (mkMove Y 1 (-1) ''U'') (finishMove (mkMove Y 1 1 (''U'' @ [CHR 0x27]))
       (useFrame (useFrame
         (initScreen\<lparr>moveQueue := [mkMove Y 1 (-1) ''U'', mkMove X (-1) 1 ''L'']\<rparr>) 1) 1))) ! 8)
     = Quaternion (9007199254740991 / 2 ^ 54) (- (1 / 2)) (- (9007199254740991 / 2 ^ 54))
         (4503599627370497 / 2 ^ 53)
   \<and> cubies (finishMove (mkMove Y 1 (-1) ''U'') (finishMove (mkMove Y 1 1 (''U'' @ [CHR 0x27]))
       (useFrame (useFrame
         (initScreen\<lparr>moveQueue := [mkMove Y 1 (-1) ''U'', mkMove X (-1) 1 ''L'']\<rparr>) 1) 1)))
     \<noteq> cubies (useFrame (useFrame
         (initScreen\<lparr>moveQueue := [mkMove Y 1 (-1) ''U'', mkMove X (-1) 1 ''L'']\<rparr>) 1) 1)"
proof -
  let ?U = "mkMove Y 1 (-1) ''U''" and ?U' = "mkMove Y 1 1 (''U'' @ [CHR 0x27])"
  let ?L = "mkMove X (-1) 1 ''L''"
  let ?s0 = "initScreen\<lparr>moveQueue := [?U, ?L]\<rparr>"
  let ?s1 = "useFrame ?s0 1"
  let ?s2 = "useFrame ?s1 1"
  have tU: "tableMove ?U" and tU': "tableMove ?U'" and tL: "tableMove ?L"
    by (simp_all add: tableMove_def moveTable_def MOVES_def)
  have "reachScreen (initScreen\<lparr>moveQueue := moveQueue initScreen @ [?U]\<rparr>
                      \<lparr>moveQueue := [?U] @ [?L]\<rparr>)"
    using rs_enqueue [OF rs_enqueue [OF rs_init tU [unfolded tableMove_def]] tL [unfolded tableMove_def]]
    by (simp add: initScreen_def)
  then have r0: "reachScreen ?s0"
    by (simp add: initScreen_def)
  then have r2: "reachScreen ?s2"
    by (intro rs_tick)
  have i0: "\<not> isAnimatingRef ?s0" "moveQueue ?s0 = ?U # [?L]" "pivotRef ?s0 = Some newQuaternion"
    by (simp_all add: initScreen_def)
  have big: "(1::real) / 6 \<le> 1" by simp
  note f1 = useFrame_complete [OF i0 big]
  note f2 = useFrame_complete [OF f1(3) f1(2) f1(4) big]
  have c0: "cubies ?s0 = initCubies" by (simp add: initScreen_def)
  let ?cs1 = "finishCubies ?U initCubies"
  let ?cs2 = "finishCubies ?L ?cs1"
  let ?cs3 = "finishCubies ?U' ?cs2"
  let ?cs4 = "finishCubies ?U ?cs3"
  have cs2: "cubies ?s2 = ?cs2"
    by (simp only: f2(1) f1(1) c0)
  have w1: "wellStore ?cs1" using tU wellStore_initCubies by (rule wellStore_finishCubies)
  have w2: "wellStore ?cs2" using tL w1 by (rule wellStore_finishCubies)
  have w3: "wellStore ?cs3" using tU' w2 by (rule wellStore_finishCubies)
  have e0: "initCubies ! 8 = \<lparr>cid = 8, position = Vector3 (-1) 1 1, rotation = newQuaternion,
                               cname = ''-1,1,1''\<rparr>"
    by (simp add: initCubies_def latticeOrder_eq show_int_def)
  have e1: "?cs1 ! 8 = \<lparr>cid = 8, position = Vector3 (-1) 1 (-1),
               rotation = Quaternion 0 (dy (-1592262918131443) (-51)) 0 (dy 6369051672525773 (-53)),
               cname = ''-1,1,1''\<rparr>"
    by (subst nth_finishCubies [OF wellStore_initCubies tU])
       (simp_all add: e0 isInSlice_def turned_def rot90_def mkMove_sel trace_U)
  have e2: "?cs2 ! 8 = \<lparr>cid = 8, position = Vector3 (-1) 1 1,
               rotation = Quaternion (dy 1 (-1)) (dy (-1) (-1)) (dy (-4503599627370495) (-53))
                            (dy 4503599627370497 (-53)),
               cname = ''-1,1,1''\<rparr>"
    by (subst nth_finishCubies [OF w1 tL])
       (simp_all add: e1 isInSlice_def turned_def rot90_def mkMove_sel trace_UL)
  have e3: "?cs3 ! 8 = \<lparr>cid = 8, position = Vector3 1 1 1,
               rotation = Quaternion (dy 1 (-53)) 0 (dy (-1592262918131443) (-51))
                            (dy 6369051672525773 (-53)),
               cname = ''-1,1,1''\<rparr>"
    by (subst nth_finishCubies [OF w2 tU'])
       (simp_all add: e2 isInSlice_def turned_def rot90_def mkMove_sel trace_ULU')
  have e4: "?cs4 ! 8 = \<lparr>cid = 8, position = Vector3 (-1) 1 1,
               rotation = Quaternion (dy 9007199254740991 (-54)) (dy (-1) (-1))
                            (dy (-9007199254740991) (-54)) (dy 4503599627370497 (-53)),
               cname = ''-1,1,1''\<rparr>"
    by (subst nth_finishCubies [OF w3 tU])
       (simp_all add: e3 [simplified] isInSlice_def turned_def rot90_def mkMove_sel trace_ULU'U)
  have before: "rotation (cubies ?s2 ! 8)
        = Quaternion (1 / 2) (- (1 / 2)) (- (4503599627370495 / 2 ^ 53)) (4503599627370497 / 2 ^ 53)"
    by (simp add: cs2 e2 dy_real)
  have after: "rotation (cubies (finishMove ?U (finishMove ?U' ?s2)) ! 8)
        = Quaternion (9007199254740991 / 2 ^ 54) (- (1 / 2)) (- (9007199254740991 / 2 ^ 54))
            (4503599627370497 / 2 ^ 53)"
    by (simp add: cubies_finishMove cs2 e4 [simplified] dy_real)
  have "rotation (cubies (finishMove ?U (finishMove ?U' ?s2)) ! 8) \<noteq> rotation (cubies ?s2 ! 8)"
    unfolding before after by simp
  then have "cubies (finishMove ?U (finishMove ?U' ?s2)) \<noteq> cubies ?s2"
    by auto
  with r2 before after show ?thesis
    by (intro conjI)
qed

section \<open>The order-4 law\<close>

text \<open>
  Claim C3, as the code has it. Completing the same table move four times returns every
  cubie's id, name and position to what it was and leaves every cubie outside the slice
  untouched. The rotation of each of the nine cubies of the slice is not rounded by the
  program: it becomes the fourfold product, in doubles, of the quarter-turn quaternion
  with the rotation it had. That product need not be the rotation it had, nor its
  negation; each of its components is within \<open>2\<^sup>-\<^sup>4\<^sup>7\<close> of the size of that rotation
  (and 64 half spacings of the subnormal numbers) of the negated component it had, and a
  quaternion and its negation rotate every vector alike. This holds for \<open>finishMove\<close>
  of part\_000 in every reachable state, and in Cube3D.tsx for every run of frames, of
  whatever lengths, that empties the queue of a reachable state holding the move four
  times.
\<close>

theorem order_four_law:
  assumes "(k, m) \<in> set MOVES"
  shows "(reachScreen s \<longrightarrow>
            cubies (finishMove m (finishMove m (finishMove m (finishMove m s))))
            = map (\<lambda>c. if isInSlice (position c) (axis m) (slice m)
                          then c\<lparr>rotation :=
                                 premultiply (premultiply (premultiply (premultiply (rotation c)
                                   (setFromAxisAngle (axisVec (axis m)) ((pi / 2) * direction m)))
                                   (setFromAxisAngle (axisVec (axis m)) ((pi / 2) * direction m)))
                                   (setFromAxisAngle (axisVec (axis m)) ((pi / 2) * direction m)))
                                   (setFromAxisAngle (axisVec (axis m)) ((pi / 2) * direction m))\<rparr>
                          else c) (cubies s)
          \<and> (\<forall>i < length (cubies s).
               isInSlice (position (cubies s ! i)) (axis m) (slice m) \<longrightarrow>
               qdist (rotation (cubies (finishMove m (finishMove m (finishMove m (finishMove m s)))) ! i))
                     (negQ (rotation (cubies s ! i)))
               \<le> qnorm1 (rotation (cubies s ! i)) / 2 ^ 47 + 64 * minHalfUlp))
       \<and> (reachMesh t \<and> moveQueue t = [m, m, m, m] \<and> moveQueue (foldl useFrame3D t ds) = []
            \<longrightarrow> cubies (foldl useFrame3D t ds)
            = map (\<lambda>c. if isInSlice (position c) (axis m) (slice m)
                          then c\<lparr>rotation :=
                                 premultiply (premultiply (premultiply (premultiply (rotation c)
                                   (setFromAxisAngle (axisVec (axis m)) ((pi / 2) * direction m)))
                                   (setFromAxisAngle (axisVec (axis m)) ((pi / 2) * direction m)))
                                   (setFromAxisAngle (axisVec (axis m)) ((pi / 2) * direction m)))
                                   (setFromAxisAngle (axisVec (axis m)) ((pi / 2) * direction m))\<rparr>
                          else c) (cubies t)
          \<and> (\<forall>i < length (cubies t).
               isInSlice (position (cubies t ! i)) (axis m) (slice m) \<longrightarrow>
               qdist (rotation (cubies (foldl useFrame3D t ds) ! i))
                     (negQ (rotation (cubies t ! i)))
               \<le> qnorm1 (rotation (cubies t ! i)) / 2 ^ 47 + 64 * minHalfUlp))
       \<and> (\<forall>v q. applyQuaternion v (negQ q) = applyQuaternion v q)"
proof (intro conjI impI allI)
  have d: "direction m = 1 \<or> direction m = -1"
    using assms by (intro tableMove_direction MOVES_tableMove)
  {
    assume "reachScreen s"
    then have lat: "\<forall>c \<in> set (cubies s). onLattice (position c)"
      by (rule reachScreen_onLattice)
    have eq: "cubies (finishMove m (finishMove m (finishMove m (finishMove m s))))
          = inSliceMap m
              (\<lambda>c. c\<lparr>rotation := multiplyQuaternions (quarter (axis m) (direction m))
                      (multiplyQuaternions (quarter (axis m) (direction m))
                        (multiplyQuaternions (quarter (axis m) (direction m))
                          (multiplyQuaternions (quarter (axis m) (direction m)) (rotation c))))\<rparr>)
              (cubies s)"
      using d lat by (simp only: cubies_finishMove finishCubies_four)
    show "cubies (finishMove m (finishMove m (finishMove m (finishMove m s))))
          = map (\<lambda>c. if isInSlice (position c) (axis m) (slice m)
                        then c\<lparr>rotation :=
                               premultiply (premultiply (premultiply (premultiply (rotation c)
                                 (setFromAxisAngle (axisVec (axis m)) ((pi / 2) * direction m)))
                                 (setFromAxisAngle (axisVec (axis m)) ((pi / 2) * direction m)))
                                 (setFromAxisAngle (axisVec (axis m)) ((pi / 2) * direction m)))
                                 (setFromAxisAngle (axisVec (axis m)) ((pi / 2) * direction m))\<rparr>
                        else c) (cubies s)"
      using eq by (simp only: inSliceMap_def premultiply_def quarter_def)
    fix i
    assume "i < length (cubies s)"
      and "isInSlice (position (cubies s ! i)) (axis m) (slice m)"
    then show "qdist (rotation (cubies (finishMove m (finishMove m (finishMove m (finishMove m s)))) ! i))
                 (negQ (rotation (cubies s ! i)))
               \<le> qnorm1 (rotation (cubies s ! i)) / 2 ^ 47 + 64 * minHalfUlp"
      unfolding eq using d by (intro four_turns_near)
  }
  {
    assume h: "reachMesh t \<and> moveQueue t = [m, m, m, m] \<and> moveQueue (foldl useFrame3D t ds) = []"
    then have r: "reachMesh t" and q: "moveQueue t = [m, m, m, m]"
      and e: "moveQueue (foldl useFrame3D t ds) = []"
      by simp_all
    have lat: "\<forall>c \<in> set (cubies t). onLattice (position c)"
      using reachMesh_inv [OF r] by (intro wellStore_onLattice) (simp add: invMesh_def)
    have "cubies (foldl useFrame3D t ds)
          = finishCubies m (finishCubies m (finishCubies m (finishCubies m (cubies t))))"
      using r q e by (rule frames3D_four)
    then have eq: "cubies (foldl useFrame3D t ds)
          = inSliceMap m
              (\<lambda>c. c\<lparr>rotation := multiplyQuaternions (quarter (axis m) (direction m))
                      (multiplyQuaternions (quarter (axis m) (direction m))
                        (multiplyQuaternions (quarter (axis m) (direction m))
                          (multiplyQuaternions (quarter (axis m) (direction m)) (rotation c))))\<rparr>)
              (cubies t)"
      using d lat by (simp only: finishCubies_four)
    show "cubies (foldl useFrame3D t ds)
          = map (\<lambda>c. if isInSlice (position c) (axis m) (slice m)
                        then c\<lparr>rotation :=
                               premultiply (premultiply (premultiply (premultiply (rotation c)
                                 (setFromAxisAngle (axisVec (axis m)) ((pi / 2) * direction m)))
                                 (setFromAxisAngle (axisVec (axis m)) ((pi / 2) * direction m)))
                                 (setFromAxisAngle (axisVec (axis m)) ((pi / 2) * direction m)))
                                 (setFromAxisAngle (axisVec (axis m)) ((pi / 2) * direction m))\<rparr>
                        else c) (cubies t)"
      using eq by (simp only: inSliceMap_def premultiply_def quarter_def)
    fix i
    assume "i < length (cubies t)"
      and "isInSlice (position (cubies t ! i)) (axis m) (slice m)"
    then show "qdist (rotation (cubies (foldl useFrame3D t ds) ! i))
                 (negQ (rotation (cubies t ! i)))
               \<le> qnorm1 (rotation (cubies t ! i)) / 2 ^ 47 + 64 * minHalfUlp"
      unfolding eq using d by (intro four_turns_near)
  }
  fix v q
  show "applyQuaternion v (negQ q) = applyQuaternion v q"
    by (rule applyQuaternion_negQ)
qed

theorem order_four_law_witness:
  "(''U1'', mkMove Y 1 (-1) ''U'') \<in> set MOVES
   \<and> reachScreen initScreen
   \<and> map position (cubies (finishMove (mkMove Y 1 (-1) ''U'') (finishMove (mkMove Y 1 (-1) ''U'')
         (finishMove (mkMove Y 1 (-1) ''U'') (finishMove (mkMove Y 1 (-1) ''U'') initScreen)))))
       = map position (cubies initScreen)
   \<and> qdist (rotation (cubies (finishMove (mkMove Y 1 (-1) ''U'') (finishMove (mkMove Y 1 (-1) ''U'')
         (finishMove (mkMove Y 1 (-1) ''U'') (finishMove (mkMove Y 1 (-1) ''U'') initScreen)))) ! 6))
       (negQ (rotation (cubies initScreen ! 6)))
     \<le> qnorm1 (rotation (cubies initScreen ! 6)) / 2 ^ 47 + 64 * minHalfUlp
   \<and> reachMesh (initMesh\<lparr>moveQueue := [mkMove Y 1 (-1) ''U'', mkMove Y 1 (-1) ''U'',
                                        mkMove Y 1 (-1) ''U'', mkMove Y 1 (-1) ''U'']\<rparr>)
   \<and> moveQueue (foldl useFrame3D
         (initMesh\<lparr>moveQueue := [mkMove Y 1 (-1) ''U'', mkMove Y 1 (-1) ''U'',
                                   mkMove Y 1 (-1) ''U'', mkMove Y 1 (-1) ''U'']\<rparr>) [1, 1, 1, 1]) = []
   \<and> map position (cubies (foldl useFrame3D
         (initMesh\<lparr>moveQueue := [mkMove Y 1 (-1) ''U'', mkMove Y 1 (-1) ''U'',
                                   mkMove Y 1 (-1) ''U'', mkMove Y 1 (-1) ''U'']\<rparr>) [1, 1, 1, 1]))
       = map position (cubies initMesh)"
proof -
  let ?U = "mkMove Y 1 (-1) ''U''"
  let ?t = "initMesh\<lparr>moveQueue := [?U, ?U, ?U, ?U]\<rparr>"
  let ?q = "setFromAxisAngle (axisVec (axis ?U)) ((pi / 2) * direction ?U)"
  let ?s4 = "finishMove ?U (finishMove ?U (finishMove ?U (finishMove ?U initScreen)))"
  have a: "(''U1'', ?U) \<in> set MOVES"
    by (simp add: MOVES_def)
  have b: "reachScreen initScreen"
    by (rule rs_init)
  have "reachMesh (initMesh\<lparr>moveQueue := moveQueue initMesh @ [?U]\<rparr>
                          \<lparr>moveQueue := moveQueue (initMesh\<lparr>moveQueue := moveQueue initMesh @ [?U]\<rparr>) @ [?U]\<rparr>
                          \<lparr>moveQueue := [?U, ?U] @ [?U]\<rparr>\<lparr>moveQueue := [?U, ?U, ?U] @ [?U]\<rparr>)"
    using rm_enqueue [OF rm_enqueue [OF rm_enqueue [OF rm_enqueue [OF rm_init U1_tableMove]
            U1_tableMove] U1_tableMove] U1_tableMove]
    by (simp add: initMesh_def)
  then have c: "reachMesh ?t"
    by (simp add: initMesh_def)
  have idle0: "\<not> isAnimating ?t" and q0: "moveQueue ?t = ?U # [?U, ?U, ?U]"
    by (simp_all add: initMesh_def)
  have "pi / 2 \<le> 5" using pi_less_4 by simp
  then have big: "pi / 2 \<le> ANIMATION_SPEED * 1"
    by (simp add: ANIMATION_SPEED_def)
  note s1 = useFrame3D_complete [OF reachMesh_inv [OF c] idle0 q0 big]
  note s2 = useFrame3D_complete [OF s1(4) s1(3) s1(2) big]
  note s3 = useFrame3D_complete [OF s2(4) s2(3) s2(2) big]
  note s4 = useFrame3D_complete [OF s3(4) s3(3) s3(2) big]
  have e: "moveQueue (foldl useFrame3D ?t [1, 1, 1, 1]) = []"
    using s4(2) by simp
  have q: "moveQueue ?t = [?U, ?U, ?U, ?U]"
    by simp
  have six: "6 < length (cubies initScreen)"
    and ins: "isInSlice (position (cubies initScreen ! 6)) (axis ?U) (slice ?U)"
    by (simp_all add: initScreen_def length_initCubies initCubies_6 isInSlice_def mkMove_sel)
  note law = order_four_law [OF a, of initScreen ?t "[1, 1, 1, 1]"]
  note A = mp [OF conjunct1 [OF law] b]
  have "reachMesh ?t \<and> moveQueue ?t = [?U, ?U, ?U, ?U] \<and> moveQueue (foldl useFrame3D ?t [1, 1, 1, 1]) = []"
    using c q e by (intro conjI)
  note B = mp [OF conjunct1 [OF conjunct2 [OF law]] this]
  from conjunct1 [OF A]
  have p1: "map position (cubies ?s4) = map position (cubies initScreen)"
    by (simp add: comp_def if_distrib [of position] cong: if_cong)
  from conjunct1 [OF B]
  have p2: "map position (cubies (foldl useFrame3D ?t [1, 1, 1, 1])) = map position (cubies initMesh)"
    by (simp add: comp_def if_distrib [of position] cong: if_cong)
  from conjunct2 [OF A] six ins
  have n: "qdist (rotation (cubies ?s4 ! 6)) (negQ (rotation (cubies initScreen ! 6)))
           \<le> qnorm1 (rotation (cubies initScreen ! 6)) / 2 ^ 47 + 64 * minHalfUlp"
    by blast
  from a b p1 n c e p2 show ?thesis
    by (intro conjI)
qed

text \<open>
  The claim as stated fails on the initial store: after four \<open>U\<close> turns the cubie that
  started at \<open>(-1, 1, -1)\<close> carries the quaternion \<open>(0, -2.7755575615628914e-16, 0, -1)\<close>,
  which is neither the identity quaternion nor its negation, and which does not rotate
  the vector \<open>(1, 0, 0)\<close> onto itself.
\<close>

theorem order_four_counterexample:
  "rotation (cubies (finishMove (mkMove Y 1 (-1) ''U'') (finishMove (mkMove Y 1 (-1) ''U'')
       (finishMove (mkMove Y 1 (-1) ''U'') (finishMove (mkMove Y 1 (-1) ''U'') initScreen)))) ! 6)
   = Quaternion 0 (- (5 / 2 ^ 54)) 0 (-1)
   \<and> rotation (cubies initScreen ! 6) = newQuaternion
   \<and> Quaternion 0 (- (5 / 2 ^ 54)) 0 (-1) \<noteq> newQuaternion
   \<and> applyQuaternion (Vector3 1 0 0) (Quaternion 0 (- (5 / 2 ^ 54)) 0 (-1)) \<noteq> Vector3 1 0 0"
proof -
  let ?U = "mkMove Y 1 (-1) ''U''"
  let ?cs1 = "finishCubies ?U initCubies"
  let ?cs2 = "finishCubies ?U ?cs1"
  let ?cs3 = "finishCubies ?U ?cs2"
  let ?cs4 = "finishCubies ?U ?cs3"
  have tU: "tableMove ?U"
    by (simp add: tableMove_def moveTable_def MOVES_def)
  have w1: "wellStore ?cs1" using tU wellStore_initCubies by (rule wellStore_finishCubies)
  have w2: "wellStore ?cs2" using tU w1 by (rule wellStore_finishCubies)
  have w3: "wellStore ?cs3" using tU w2 by (rule wellStore_finishCubies)
  have e1: "?cs1 ! 6 = \<lparr>cid = 6, position = Vector3 1 1 (-1),
               rotation = Quaternion 0 (dy (-1592262918131443) (-51)) 0 (dy 6369051672525773 (-53)),
               cname = ''-1,1,-1''\<rparr>"
    by (subst nth_finishCubies [OF wellStore_initCubies tU])
       (simp_all add: initCubies_6 isInSlice_def turned_def rot90_def mkMove_sel trace_U)
  have e2: "?cs2 ! 6 = \<lparr>cid = 6, position = Vector3 1 1 1,
               rotation = Quaternion 0 (dy (-1) 0) 0 (dy 1 (-52)),
               cname = ''-1,1,-1''\<rparr>"
    by (subst nth_finishCubies [OF w1 tU])
       (simp_all add: e1 isInSlice_def turned_def rot90_def mkMove_sel trace_UU)
  have e3: "?cs3 ! 6 = \<lparr>cid = 6, position = Vector3 (-1) 1 1,
               rotation = Quaternion 0 (dy (-3184525836262887) (-52)) 0 (dy (-6369051672525771) (-53)),
               cname = ''-1,1,-1''\<rparr>"
    by (subst nth_finishCubies [OF w2 tU])
       (simp_all add: e2 isInSlice_def turned_def rot90_def mkMove_sel trace_UUU)
  have e4: "?cs4 ! 6 = \<lparr>cid = 6, position = Vector3 (-1) 1 (-1),
               rotation = Quaternion 0 (dy (-5) (-54)) 0 (dy (-1) 0),
               cname = ''-1,1,-1''\<rparr>"
    by (subst nth_finishCubies [OF w3 tU])
       (simp_all add: e3 isInSlice_def turned_def rot90_def mkMove_sel trace_UUUU)
  have "cubies (finishMove ?U (finishMove ?U (finishMove ?U (finishMove ?U initScreen)))) = ?cs4"
    by (simp add: cubies_finishMove initScreen_def)
  then have a: "rotation (cubies (finishMove ?U (finishMove ?U (finishMove ?U (finishMove ?U initScreen)))) ! 6)
        = Quaternion 0 (- (5 / 2 ^ 54)) 0 (-1)"
    by (simp add: e4 dy_real)
  have b: "rotation (cubies initScreen ! 6) = newQuaternion"
    by (simp add: initScreen_def initCubies_6)
  have c: "Quaternion 0 (- (5 / 2 ^ 54)) 0 (-1) \<noteq> newQuaternion"
    by (simp add: newQuaternion_def)
  have d: "applyQuaternion (Vector3 1 0 0) (Quaternion 0 (- (5 / 2 ^ 54)) 0 (-1)) \<noteq> Vector3 1 0 0"
    by (simp add: applyQuaternion_def Let_def)
  from a b c d show ?thesis
    by (intro conjI)
qed

section \<open>Frames before the commit are visual only\<close>

text \<open>
  Claim C4. A frame changes the cubie list only when it commits. In part\_000 a frame
  whose progress, after this frame's increment, is still below 1 (the whole quarter
  turn) leaves the cubies as they are; in Cube3D.tsx the same holds while the progress
  after the increment is below \<open>\<pi>/2\<close>. A frame that finds no move to animate changes
  nothing either. So whenever a frame changes the cubie list, a move is animating and
  its progress has reached the quarter turn.
\<close>

theorem visual_only_before_commit:
  "(progressRef (startScreen s)
        + delta * (if length (moveQueue (startScreen s)) > 5 then 20 else 6) < 1
      \<longrightarrow> cubies (useFrame s delta) = cubies s)
   \<and> (\<not> isAnimatingRef (startScreen s) \<longrightarrow> cubies (useFrame s delta) = cubies s)
   \<and> (moveProgress (startMesh t) + ANIMATION_SPEED * delta' < pi / 2
      \<longrightarrow> cubies (useFrame3D t delta') = cubies t)
   \<and> (\<not> isAnimating (startMesh t) \<longrightarrow> cubies (useFrame3D t delta') = cubies t)"
  by (auto simp: cubies_useFrame cubies_useFrame3D split: bool.splits option.splits)

theorem visual_only_before_commit_witness:
  "progressRef (startScreen (initScreen\<lparr>moveQueue := [mkMove Y 1 (-1) ''U'']\<rparr>))
      + (1 / 100) * (if length (moveQueue (startScreen (initScreen\<lparr>moveQueue := [mkMove Y 1 (-1) ''U'']\<rparr>))) > 5
                     then 20 else 6) < 1
   \<and> isAnimatingRef (startScreen (initScreen\<lparr>moveQueue := [mkMove Y 1 (-1) ''U'']\<rparr>))
   \<and> cubies (useFrame (initScreen\<lparr>moveQueue := [mkMove Y 1 (-1) ''U'']\<rparr>) (1 / 100))
       = cubies (initScreen\<lparr>moveQueue := [mkMove Y 1 (-1) ''U'']\<rparr>)
   \<and> \<not> isAnimatingRef (startScreen initScreen)
   \<and> cubies (useFrame initScreen (1 / 100)) = cubies initScreen
   \<and> moveProgress (startMesh (initMesh\<lparr>moveQueue := [mkMove Y 1 (-1) ''U'']\<rparr>))
        + ANIMATION_SPEED * (1 / 100) < pi / 2
   \<and> isAnimating (startMesh (initMesh\<lparr>moveQueue := [mkMove Y 1 (-1) ''U'']\<rparr>))
   \<and> cubies (useFrame3D (initMesh\<lparr>moveQueue := [mkMove Y 1 (-1) ''U'']\<rparr>) (1 / 100))
       = cubies (initMesh\<lparr>moveQueue := [mkMove Y 1 (-1) ''U'']\<rparr>)
   \<and> \<not> isAnimating (startMesh initMesh)
   \<and> cubies (useFrame3D initMesh (1 / 100)) = cubies initMesh"
proof -
  let ?s = "initScreen\<lparr>moveQueue := [mkMove Y 1 (-1) ''U'']\<rparr>"
  let ?t = "initMesh\<lparr>moveQueue := [mkMove Y 1 (-1) ''U'']\<rparr>"
  have a: "progressRef (startScreen ?s)
             + (1 / 100) * (if length (moveQueue (startScreen ?s)) > 5 then 20 else 6) < 1"
    and a': "isAnimatingRef (startScreen ?s)"
    by (simp_all add: startScreen_def initScreen_def)
  have b: "\<not> isAnimatingRef (startScreen initScreen)"
    by (simp add: startScreen_def initScreen_def)
  have "1 / 20 < pi / 2" using pi_ge_two by simp
  then have c: "moveProgress (startMesh ?t) + ANIMATION_SPEED * (1 / 100) < pi / 2"
    by (simp add: startMesh_def initMesh_def ANIMATION_SPEED_def Let_def)
  have c': "isAnimating (startMesh ?t)"
    by (simp add: startMesh_def initMesh_def Let_def)
  have d: "\<not> isAnimating (startMesh initMesh)"
    by (simp add: startMesh_def initMesh_def)
  from visual_only_before_commit [of ?s "1 / 100" ?t "1 / 100"] a c
  have e: "cubies (useFrame ?s (1 / 100)) = cubies ?s"
    and f: "cubies (useFrame3D ?t (1 / 100)) = cubies ?t"
    by blast+
  from visual_only_before_commit [of initScreen "1 / 100" initMesh "1 / 100"] b d
  have g: "cubies (useFrame initScreen (1 / 100)) = cubies initScreen"
    and h: "cubies (useFrame3D initMesh (1 / 100)) = cubies initMesh"
    by blast+
  from a a' b c c' d e f g h show ?thesis
    by (intro conjI)
qed

section \<open>Colours are bound to the cubie\<close>

text \<open>
  Claim C5. No move changes the colours of a cubie, in either component. In Cube3D.tsx
  the six materials of a cubie are computed from its id; in the initial store they are
  the colouring of the lattice coordinates at which the cubie was created (a face is
  coloured where the coordinate puts it on the outside of the cube), and in every
  reachable state the cubie at each place of the list has the materials it had in the
  initial store. In part\_000 every cubie is handed the same array of six face
  materials, in every reachable state: there the assignment is the same for every
  coordinate.
\<close>

theorem color_binding:
  "map myMaterials initCubies3D = map colorAssignment latticeOrder
   \<and> (reachMesh t \<longrightarrow> map myMaterials (cubies t) = map myMaterials initCubies3D)
   \<and> (reachScreen s \<longrightarrow>
        map cubieMeshMaterials (cubies s) = replicate 27 [Right, Left, Top, Bottom, Front, Back])"
proof (intro conjI impI)
  show "map myMaterials initCubies3D = map colorAssignment latticeOrder"
    by (rule myMaterials_initial)
next
  assume "reachMesh t"
  then have "map cid (cubies t) = [0..<27]"
    using reachMesh_inv by (simp add: invMesh_def wellStore_def)
  then have "map cid (cubies t) = map cid initCubies3D"
    by (simp only: cid_initCubies3D)
  then show "map myMaterials (cubies t) = map myMaterials initCubies3D"
    by (rule myMaterials_same_ids)
next
  assume "reachScreen s"
  then have "length (cubies s) = 27"
    using reachScreen_inv length_wellStore by (simp add: invScreen_def)
  then show "map cubieMeshMaterials (cubies s)
             = replicate 27 [Right, Left, Top, Bottom, Front, Back]"
    by (simp add: cubieMeshMaterials_def [abs_def] materials_def map_replicate_const)
qed

theorem color_binding_witness:
  "reachMesh (useFrame3D (initMesh\<lparr>moveQueue := moveQueue initMesh @ [mkMove Y 1 (-1) ''U'']\<rparr>) 1)
   \<and> map myMaterials
        (cubies (useFrame3D (initMesh\<lparr>moveQueue := moveQueue initMesh @ [mkMove Y 1 (-1) ''U'']\<rparr>) 1))
       = map myMaterials initCubies3D
   \<and> reachScreen (useFrame (initScreen\<lparr>moveQueue := moveQueue initScreen @ [mkMove Y 1 (-1) ''U'']\<rparr>) 1)
   \<and> map cubieMeshMaterials
        (cubies (useFrame (initScreen\<lparr>moveQueue := moveQueue initScreen @ [mkMove Y 1 (-1) ''U'']\<rparr>) 1))
       = replicate 27 [Right, Left, Top, Bottom, Front, Back]"
proof -
  let ?s = "useFrame (initScreen\<lparr>moveQueue := moveQueue initScreen @ [mkMove Y 1 (-1) ''U'']\<rparr>) 1"
  let ?t = "useFrame3D (initMesh\<lparr>moveQueue := moveQueue initMesh @ [mkMove Y 1 (-1) ''U'']\<rparr>) 1"
  have rs: "reachScreen ?s"
    by (intro rs_tick rs_enqueue rs_init U1_tableMove)
  have rt: "reachMesh ?t"
    by (intro rm_tick rm_enqueue rm_init U1_tableMove)
  from color_binding [of ?t ?s] rs rt show ?thesis
    by simp
qed

section \<open>The scramble never repeats an axis\<close>

text \<open>
  Claim C7. Whatever values \<open>Math.random()\<close> returns, when the scramble returns its
  sequence, the sequence has 20 moves, all from the table, and no two consecutive moves
  have the same axis. (A run in which the inner loop keeps drawing the axis of the
  previous move never returns; on a finite list of draws it stops with
  \<open>NeedsMoreDraws\<close>.)
\<close>

theorem scramble_no_repeated_axis:
  assumes "scrambleMoves us = Inr ms"
  shows "length ms = 20 \<and> set ms \<subseteq> set moveTable
         \<and> (\<forall>i. Suc i < length ms \<longrightarrow> axis (ms ! i) \<noteq> axis (ms ! Suc i))"
proof -
  from assms have "scrambleLoop 20 None [] us = Inr ms"
    by (simp add: scrambleMoves_def)
  from scrambleLoop_result [OF this]
  have len: "length ms = 20" and adj: "distinct_adj (map axis ms)"
    and sub: "set ms \<subseteq> set moveTable"
    by simp_all
  have "axis (ms ! i) \<noteq> axis (ms ! Suc i)" if "Suc i < length ms" for i
    using distinct_adj_nth [OF adj, of i] that by simp
  with len sub show ?thesis by blast
qed

theorem scramble_no_repeated_axis_witness:
  "scrambleMoves [0, 0, 2 / 5, 0, 2 / 5, 0, 2 / 5, 0, 2 / 5, 0, 2 / 5, 0, 2 / 5, 0,
                  2 / 5, 0, 2 / 5, 0, 2 / 5, 0, 2 / 5]
   = Inr [mkMove Y 1 (-1) ''U'', mkMove X (-1) 1 ''L'', mkMove Y 1 (-1) ''U'', mkMove X (-1) 1 ''L'',
          mkMove Y 1 (-1) ''U'', mkMove X (-1) 1 ''L'', mkMove Y 1 (-1) ''U'', mkMove X (-1) 1 ''L'',
          mkMove Y 1 (-1) ''U'', mkMove X (-1) 1 ''L'', mkMove Y 1 (-1) ''U'', mkMove X (-1) 1 ''L'',
          mkMove Y 1 (-1) ''U'', mkMove X (-1) 1 ''L'', mkMove Y 1 (-1) ''U'', mkMove X (-1) 1 ''L'',
          mkMove Y 1 (-1) ''U'', mkMove X (-1) 1 ''L'', mkMove Y 1 (-1) ''U'', mkMove X (-1) 1 ''L'']
   \<and> length [mkMove Y 1 (-1) ''U'', mkMove X (-1) 1 ''L'', mkMove Y 1 (-1) ''U'', mkMove X (-1) 1 ''L'',
          mkMove Y 1 (-1) ''U'', mkMove X (-1) 1 ''L'', mkMove Y 1 (-1) ''U'', mkMove X (-1) 1 ''L'',
          mkMove Y 1 (-1) ''U'', mkMove X (-1) 1 ''L'', mkMove Y 1 (-1) ''U'', mkMove X (-1) 1 ''L'',
          mkMove Y 1 (-1) ''U'', mkMove X (-1) 1 ''L'', mkMove Y 1 (-1) ''U'', mkMove X (-1) 1 ''L'',
          mkMove Y 1 (-1) ''U'', mkMove X (-1) 1 ''L'', mkMove Y 1 (-1) ''U'', mkMove X (-1) 1 ''L''] = 20
   \<and> axis (mkMove Y 1 (-1) ''U'') \<noteq> axis (mkMove X (-1) 1 ''L'')"
proof -
  let ?U = "mkMove Y 1 (-1) ''U''" and ?L = "mkMove X (-1) 1 ''L''"
  let ?ms = "[?U, ?L, ?U, ?L, ?U, ?L, ?U, ?L, ?U, ?L, ?U, ?L, ?U, ?L, ?U, ?L, ?U, ?L, ?U, ?L]"
  have ax: "axis ?U = Y" "axis ?L = X" by (simp_all add: mkMove_def)
  have run: "scrambleMoves [0, 0, 2 / 5, 0, 2 / 5, 0, 2 / 5, 0, 2 / 5, 0, 2 / 5, 0, 2 / 5, 0,
                  2 / 5, 0, 2 / 5, 0, 2 / 5, 0, 2 / 5] = Inr ?ms"
    by (simp add: scrambleMoves_def numeral_eq_Suc drawMove_0 drawMove_25 ax)
  from scramble_no_repeated_axis [OF run]
  have len: "length ?ms = 20"
    and adj: "\<forall>i. Suc i < length ?ms \<longrightarrow> axis (?ms ! i) \<noteq> axis (?ms ! Suc i)"
    by blast+
  from adj have "Suc 0 < length ?ms \<longrightarrow> axis (?ms ! 0) \<noteq> axis (?ms ! Suc 0)"
    by (rule spec)
  then have "axis ?U \<noteq> axis ?L"
    by simp
  with run len show ?thesis
    by simp
qed

section \<open>Dragging a face centre resolves to no move\<close>

text \<open>
  Claim C8. For a cubie whose position has exactly one nonzero coordinate, for every
  camera projection and every drag vector (the zero vector included),
  \<open>determineBestMove\<close> returns \<open>null\<close>: the only table moves whose slice can contain the
  cubie turn about the axis the cubie lies on, they leave its position where it is, and
  the test \<open>delta3D.lengthSq() < 0.001\<close> discards them before any projection or score.
\<close>

theorem center_piece_no_move:
  assumes "(vx (position cubie) \<noteq> 0 \<and> vy (position cubie) = 0 \<and> vz (position cubie) = 0)
         \<or> (vx (position cubie) = 0 \<and> vy (position cubie) \<noteq> 0 \<and> vz (position cubie) = 0)
         \<or> (vx (position cubie) = 0 \<and> vy (position cubie) = 0 \<and> vz (position cubie) \<noteq> 0)"
  shows "determineBestMove project cubie dragDelta = None"
proof -
  have "\<forall>(key, move) \<in> set MOVES.
          scoreMove project cubie (normalize2 dragDelta) move = None"
    using assms by (auto intro!: scoreMove_on_axis tableMove_slice MOVES_tableMove)
  then show ?thesis
    unfolding determineBestMove_def Let_def
    by (simp only: foldl_no_score) simp
qed

theorem center_piece_no_move_witness:
  "vx (position \<lparr>cid = 14, position = Vector3 0 0 1, rotation = newQuaternion, cname = ''0,0,1''\<rparr>) = 0
   \<and> vy (position \<lparr>cid = 14, position = Vector3 0 0 1, rotation = newQuaternion, cname = ''0,0,1''\<rparr>) = 0
   \<and> vz (position \<lparr>cid = 14, position = Vector3 0 0 1, rotation = newQuaternion, cname = ''0,0,1''\<rparr>) \<noteq> 0
   \<and> initCubies ! 14 = \<lparr>cid = 14, position = Vector3 0 0 1, rotation = newQuaternion, cname = ''0,0,1''\<rparr>
   \<and> determineBestMove (\<lambda>v. v)
        \<lparr>cid = 14, position = Vector3 0 0 1, rotation = newQuaternion, cname = ''0,0,1''\<rparr>
        (Vector2 30 0) = None"
proof -
  let ?c = "\<lparr>cid = 14, position = Vector3 0 0 1, rotation = newQuaternion, cname = ''0,0,1''\<rparr>"
  have a: "(vx (position ?c) \<noteq> 0 \<and> vy (position ?c) = 0 \<and> vz (position ?c) = 0)
         \<or> (vx (position ?c) = 0 \<and> vy (position ?c) \<noteq> 0 \<and> vz (position ?c) = 0)
         \<or> (vx (position ?c) = 0 \<and> vy (position ?c) = 0 \<and> vz (position ?c) \<noteq> 0)"
    by simp
  have b: "initCubies ! 14 = ?c"
    by (simp add: initCubies_def latticeOrder_eq show_int_def)
  from center_piece_no_move [OF a, of "\<lambda>v. v" "Vector2 30 0"] b show ?thesis
    by simp
qed

section \<open>Enqueueing a key that is not in the table\<close>

text \<open>
  Claim C9 says that a key absent from the move table leaves the queue unchanged. The
  guard \<open>if (move)\<close> does that for a key that reads \<open>undefined\<close>, but \<open>MOVES\<close> is an
  object literal, so a key such as \<open>constructor\<close> reads the member inherited from
  \<open>Object.prototype\<close>, which is truthy, and it is appended to the queue: the key is not
  in the table, and the queue grows by one element that is not a move.
\<close>

theorem handleMove_constructor_appended:
  "map_of MOVES ''constructor'' = None
   \<and> handleMove ''constructor'' [] = [Inherited ''constructor'']
   \<and> handleMove ''constructor'' [] \<noteq> []"
  by (simp add: handleMove_def MOVES_get_def truthy_def MOVES_def objectPrototypeKeys_def)

end
